theory Spec2Isabelle
  imports Complex_Main "HOL-Library.List_Lexorder" "HOL-Library.Char_ord"
begin

section \<open>JavaScript numbers\<close>

text \<open>
  A JavaScript \<^verbatim>\<open>number\<close> is an IEEE-754 double. The model keeps NaN and the two
  infinities apart from the finite values; \<open>Fin x\<close> is a finite number of value \<open>x\<close>. Every
  arithmetic operator computes the exact result and rounds it to the nearest double, ties to
  even, so that a result too large for a double is an infinity and one too small is
  subnormal or zero. The two zeros are one value (a zero divisor counts as \<^verbatim>\<open>+0\<close>).
  An argument \<open>Fin x\<close> of a function may carry any real \<open>x\<close>, the doubles among them; every
  argument of an example below is a double.
\<close>

subsection \<open>Rounding to a double\<close>

text \<open>
  \<open>round_even\<close> is the nearest integer, a tie going to the even one. \<open>binade x\<close> is the
  exponent \<open>e\<close> for which \<open>\<bar>x\<bar>\<close> lies from \<open>2 powi e\<close> up to \<open>2 powi (e + 1)\<close>, and \<open>-1022\<close>
  below the normal range; the doubles of that range are the multiples of \<open>quantum x\<close>, and
  \<open>rnd x\<close> is the multiple nearest to \<open>x\<close>.
\<close>

definition round_even :: "real \<Rightarrow> int" where
  "round_even y =
     (let f = \<lfloor>y\<rfloor>; d = y - of_int f
      in if d < 1 / 2 then f else if 1 / 2 < d then f + 1 else if even f then f else f + 1)"

definition binade :: "real \<Rightarrow> int" where
  "binade x = max \<lfloor>log 2 \<bar>x\<bar>\<rfloor> (- 1022)"

definition quantum :: "real \<Rightarrow> real" where
  "quantum x = 2 powi (binade x - 52)"

definition rnd :: "real \<Rightarrow> real" where
  "rnd x = (if x = 0 then 0 else of_int (round_even (x / quantum x)) * quantum x)"

text \<open>
  One rounding in the normal range changes a value by a factor between these two.
\<close>

definition ulp_lo :: real where
  "ulp_lo = 1 - 1 / 2 ^ 53"

definition ulp_hi :: real where
  "ulp_hi = 1 + 1 / 2 ^ 53"

subsection \<open>Numbers and their operators\<close>

datatype jsnum = NaN | PInf | NInf | Fin real

text \<open>
  The number a real result becomes: a rounded magnitude of \<open>2 ^ 1024\<close> or more overflows to
  an infinity.
\<close>

definition to_double :: "real \<Rightarrow> jsnum" where
  "to_double x =
     (let y = rnd x
      in if 2 ^ 1024 \<le> \<bar>y\<bar> then (if 0 < x then PInf else NInf) else Fin y)"

definition isNaN :: "jsnum \<Rightarrow> bool" where
  "isNaN x = (x = NaN)"

text \<open>The relational operators \<^verbatim>\<open><\<close>, \<^verbatim>\<open><=\<close>, \<^verbatim>\<open>>\<close>, \<^verbatim>\<open>>=\<close>: false whenever an operand is NaN.\<close>

fun jlt :: "jsnum \<Rightarrow> jsnum \<Rightarrow> bool" where
  "jlt NaN y = False"
| "jlt x NaN = False"
| "jlt (Fin a) (Fin b) = (a < b)"
| "jlt NInf NInf = False"
| "jlt NInf y = True"
| "jlt PInf y = False"
| "jlt (Fin a) PInf = True"
| "jlt (Fin a) NInf = False"

fun jle :: "jsnum \<Rightarrow> jsnum \<Rightarrow> bool" where
  "jle NaN y = False"
| "jle x NaN = False"
| "jle (Fin a) (Fin b) = (a \<le> b)"
| "jle NInf y = True"
| "jle PInf PInf = True"
| "jle PInf y = False"
| "jle (Fin a) PInf = True"
| "jle (Fin a) NInf = False"

definition jgt :: "jsnum \<Rightarrow> jsnum \<Rightarrow> bool" where
  "jgt x y = jlt y x"

definition jge :: "jsnum \<Rightarrow> jsnum \<Rightarrow> bool" where
  "jge x y = jle y x"

text \<open>Strict equality \<^verbatim>\<open>===\<close> and \<^verbatim>\<open>!==\<close> on numbers: NaN is unequal to everything.\<close>

definition jeq :: "jsnum \<Rightarrow> jsnum \<Rightarrow> bool" where
  "jeq x y = (x \<noteq> NaN \<and> y \<noteq> NaN \<and> x = y)"

definition jneq :: "jsnum \<Rightarrow> jsnum \<Rightarrow> bool" where
  "jneq x y = (\<not> jeq x y)"

fun jneg :: "jsnum \<Rightarrow> jsnum" where
  "jneg NaN = NaN"
| "jneg PInf = NInf"
| "jneg NInf = PInf"
| "jneg (Fin a) = Fin (- a)"

fun jadd :: "jsnum \<Rightarrow> jsnum \<Rightarrow> jsnum" where
  "jadd NaN y = NaN"
| "jadd x NaN = NaN"
| "jadd (Fin a) (Fin b) = to_double (a + b)"
| "jadd PInf NInf = NaN"
| "jadd NInf PInf = NaN"
| "jadd PInf y = PInf"
| "jadd NInf y = NInf"
| "jadd (Fin a) y = y"

definition jsub :: "jsnum \<Rightarrow> jsnum \<Rightarrow> jsnum" where
  "jsub x y = jadd x (jneg y)"

text \<open>The sign of a number that is not NaN: \<open>-1\<close>, \<open>0\<close> or \<open>1\<close>.\<close>

fun jsgn :: "jsnum \<Rightarrow> int" where
  "jsgn NaN = 0"
| "jsgn PInf = 1"
| "jsgn NInf = - 1"
| "jsgn (Fin a) = (if a < 0 then - 1 else if a = 0 then 0 else 1)"

definition of_sign :: "int \<Rightarrow> jsnum" where
  "of_sign s = (if s = 0 then NaN else if 0 < s then PInf else NInf)"

fun jmul :: "jsnum \<Rightarrow> jsnum \<Rightarrow> jsnum" where
  "jmul NaN y = NaN"
| "jmul x NaN = NaN"
| "jmul (Fin a) (Fin b) = to_double (a * b)"
| "jmul x y = of_sign (jsgn x * jsgn y)"

fun jdiv :: "jsnum \<Rightarrow> jsnum \<Rightarrow> jsnum" where
  "jdiv NaN y = NaN"
| "jdiv x NaN = NaN"
| "jdiv (Fin a) (Fin b) =
     (if b = 0 then (if a = 0 then NaN else if 0 < a then PInf else NInf)
      else to_double (a / b))"
| "jdiv (Fin a) y = Fin 0"
| "jdiv x (Fin b) = of_sign (jsgn x * (if b < 0 then - 1 else 1))"
| "jdiv x y = NaN"

text \<open>
  Modelled from the spec: \<^verbatim>\<open>Math.pow\<close> is a function of the platform. Its special cases
  are those ECMAScript's Number::exponentiate lists. For a finite non-zero base and exponent
  ECMAScript leaves the precision to the implementation; the spec's formula for compound
  growth is the mathematical power, and the model takes that power rounded to the nearest
  double. A power of base 1 is 1 exactly.
\<close>

definition is_int :: "real \<Rightarrow> bool" where
  "is_int b = (of_int \<lfloor>b\<rfloor> = b)"

definition is_odd_int :: "jsnum \<Rightarrow> bool" where
  "is_odd_int y = (case y of Fin b \<Rightarrow> is_int b \<and> odd \<lfloor>b\<rfloor> | _ \<Rightarrow> False)"

definition jabs :: "jsnum \<Rightarrow> jsnum" where
  "jabs x = (if jlt x (Fin 0) then jneg x else x)"

definition finite_pow :: "real \<Rightarrow> real \<Rightarrow> jsnum" where
  "finite_pow a b =
     (if 0 < a then to_double (a powr b)
      else if is_int b then to_double ((if even \<lfloor>b\<rfloor> then 1 else - 1) * (\<bar>a\<bar> powr b))
      else NaN)"

definition jpow :: "jsnum \<Rightarrow> jsnum \<Rightarrow> jsnum" where
  "jpow base exponent =
     (if exponent = NaN then NaN
      else if exponent = Fin 0 then Fin 1
      else if base = NaN then NaN
      else if base = PInf then (if jgt exponent (Fin 0) then PInf else Fin 0)
      else if base = NInf then
        (if jgt exponent (Fin 0) then (if is_odd_int exponent then NInf else PInf) else Fin 0)
      else if base = Fin 0 then (if jgt exponent (Fin 0) then Fin 0 else PInf)
      else if exponent = PInf then
        (if jgt (jabs base) (Fin 1) then PInf else if jabs base = Fin 1 then NaN else Fin 0)
      else if exponent = NInf then
        (if jgt (jabs base) (Fin 1) then Fin 0 else if jabs base = Fin 1 then NaN else PInf)
      else (case (base, exponent) of (Fin a, Fin b) \<Rightarrow> finite_pow a b | _ \<Rightarrow> NaN))"

section \<open>Financial calculators (src/lib/finance.ts)\<close>

definition monthlyPaymentAmortised :: "jsnum \<Rightarrow> jsnum \<Rightarrow> jsnum \<Rightarrow> jsnum" where
  "monthlyPaymentAmortised principalAmt annualRatePct years =
     (if jlt principalAmt (Fin 0) \<or> jlt annualRatePct (Fin 0) \<or> jlt years (Fin 0) then Fin 0
      else if isNaN principalAmt \<or> isNaN annualRatePct \<or> isNaN years then Fin 0
      else if jeq principalAmt (Fin 0) \<or> jeq years (Fin 0) then Fin 0
      else if jeq annualRatePct (Fin 0) then jdiv principalAmt (jmul years (Fin 12))
      else
        (let monthlyRate = jdiv (jdiv annualRatePct (Fin 100)) (Fin 12);
             numMonths = jmul years (Fin 12);
             numerator =
               jmul (jmul principalAmt monthlyRate) (jpow (jadd (Fin 1) monthlyRate) numMonths);
             denominator = jsub (jpow (jadd (Fin 1) monthlyRate) numMonths) (Fin 1)
         in if jeq denominator (Fin 0) then Fin 0 else jdiv numerator denominator))"

definition monthlyPaymentInterestOnly :: "jsnum \<Rightarrow> jsnum \<Rightarrow> jsnum" where
  "monthlyPaymentInterestOnly principalAmt annualRatePct =
     (if jlt principalAmt (Fin 0) \<or> jlt annualRatePct (Fin 0) then Fin 0
      else if isNaN principalAmt \<or> isNaN annualRatePct then Fin 0
      else if jeq principalAmt (Fin 0) then Fin 0
      else
        (let monthlyRate = jdiv (jdiv annualRatePct (Fin 100)) (Fin 12)
         in jmul principalAmt monthlyRate))"

definition savingsCompoundMonthly :: "jsnum \<Rightarrow> jsnum \<Rightarrow> jsnum \<Rightarrow> jsnum" where
  "savingsCompoundMonthly balance annualRatePct months =
     (if jlt balance (Fin 0) \<or> jlt annualRatePct (Fin 0) \<or> jlt months (Fin 0) then balance
      else if isNaN balance \<or> isNaN annualRatePct \<or> isNaN months then balance
      else if jeq months (Fin 0) then balance
      else
        (let monthlyRate = jdiv (jdiv annualRatePct (Fin 100)) (Fin 12)
         in jmul balance (jpow (jadd (Fin 1) monthlyRate) months)))"

definition savingsSimple :: "jsnum \<Rightarrow> jsnum \<Rightarrow> jsnum \<Rightarrow> jsnum" where
  "savingsSimple balance annualRatePct months =
     (if jlt balance (Fin 0) \<or> jlt annualRatePct (Fin 0) \<or> jlt months (Fin 0) then balance
      else if isNaN balance \<or> isNaN annualRatePct \<or> isNaN months then balance
      else if jeq months (Fin 0) then balance
      else
        (let monthlyRate = jdiv (jdiv annualRatePct (Fin 100)) (Fin 12)
         in jmul balance (jadd (Fin 1) (jmul monthlyRate months))))"

section \<open>Credit-card payoff simulation (src/app/bank-rate/ImpactCalculators.tsx)\<close>

text \<open>
  The credit-card branch of \<^verbatim>\<open>loanResults\<close>, from the point where the three inputs have
  been read: the short-circuit on a zero balance or repayment, the month-by-month loop and
  the result built after it. \<^verbatim>\<open>null\<close> in \<^verbatim>\<open>monthsToRepay\<close> is \<open>None\<close>. The literal
  \<^verbatim>\<open>0.01\<close> is the double nearest to one hundredth, \<open>rnd (1 / 100)\<close>.
\<close>

record payoff =
  monthsToRepay :: "nat option"
  totalInterest :: jsnum
  willNotRepay :: bool

definition maxMonths :: nat where
  "maxMonths = 600"

function payoffLoop :: "jsnum \<Rightarrow> jsnum \<Rightarrow> jsnum \<Rightarrow> jsnum \<Rightarrow> nat \<Rightarrow> payoff" where
  "payoffLoop monthlyRate monthlyRepayment currentBalance accrued months =
     (if jgt currentBalance (Fin (rnd (1 / 100))) \<and> months < maxMonths then
        (let monthlyInterest = jmul currentBalance monthlyRate;
             accrued' = jadd accrued monthlyInterest
         in if jle monthlyRepayment monthlyInterest then
              \<lparr>monthsToRepay = None, totalInterest = accrued', willNotRepay = True\<rparr>
            else
              payoffLoop monthlyRate monthlyRepayment
                (jsub (jadd currentBalance monthlyInterest) monthlyRepayment) accrued' (months + 1))
      else
        \<lparr>monthsToRepay = (if months \<ge> maxMonths then None else Some months),
         totalInterest = accrued,
         willNotRepay = (months \<ge> maxMonths)\<rparr>)"
  by pat_completeness auto
termination
  by (relation "measure (\<lambda>(r, p, b, t, m). maxMonths - m)") auto

definition simulateCreditCardPayoff :: "jsnum \<Rightarrow> jsnum \<Rightarrow> jsnum \<Rightarrow> payoff" where
  "simulateCreditCardPayoff balance apr monthlyRepayment =
     (if jeq balance (Fin 0) \<or> jeq monthlyRepayment (Fin 0) then
        \<lparr>monthsToRepay = None, totalInterest = Fin 0, willNotRepay = False\<rparr>
      else
        (let monthlyRate = jdiv (jdiv apr (Fin 100)) (Fin 12)
         in payoffLoop monthlyRate monthlyRepayment balance (Fin 0) 0))"

section \<open>Parsed documents (src/app/api/boe/bank-rate/route.ts)\<close>

text \<open>
  What the XML parser hands to the route: a JavaScript value. An object is the list of its
  own enumerable properties in enumeration order; a key bound twice reads as its first
  binding. Keys are element and attribute names, so none is an array index and
  \<^verbatim>\<open>for ... in\<close> visits them as listed. Properties inherited from a prototype are not
  modelled.
\<close>

datatype jsval =
    JUndefined
  | JNull
  | JBool bool
  | JNum jsnum
  | JStr string
  | JArr "jsval list"
  | JObj "(string \<times> jsval) list"

fun truthy :: "jsval \<Rightarrow> bool" where
  "truthy JUndefined = False"
| "truthy JNull = False"
| "truthy (JBool b) = b"
| "truthy (JNum n) = (n \<noteq> NaN \<and> n \<noteq> Fin 0)"
| "truthy (JStr s) = (s \<noteq> [])"
| "truthy (JArr xs) = True"
| "truthy (JObj kvs) = True"

text \<open>\<^verbatim>\<open>typeof v === 'object'\<close> and \<^verbatim>\<open>Array.isArray(v)\<close>.\<close>

fun is_object :: "jsval \<Rightarrow> bool" where
  "is_object JNull = True"
| "is_object (JArr xs) = True"
| "is_object (JObj kvs) = True"
| "is_object v = False"

fun isArray :: "jsval \<Rightarrow> bool" where
  "isArray (JArr xs) = True"
| "isArray v = False"

fun elems :: "jsval \<Rightarrow> jsval list" where
  "elems (JArr xs) = xs"
| "elems v = []"


text \<open>The decimal name of an array index.\<close>

definition digit_chars :: string where
  "digit_chars = ''0123456789''"

function show_nat :: "nat \<Rightarrow> string" where
  "show_nat n =
     (if n < 10 then [digit_chars ! n]
      else show_nat (n div 10) @ [digit_chars ! (n mod 10)])"
  by pat_completeness auto
termination
  by (relation "measure (\<lambda>n. n)") auto

text \<open>
  The own properties of a value: those of an object as listed, and for an array its
  elements under their indices followed by \<^verbatim>\<open>length\<close>, which \<^verbatim>\<open>for ... in\<close> skips.
\<close>

fun own_props :: "jsval \<Rightarrow> (string \<times> jsval) list" where
  "own_props (JObj kvs) = kvs"
| "own_props (JArr xs) =
     zip (map show_nat [0..<length xs]) xs @ [(''length'', JNum (Fin (real (length xs))))]"
| "own_props v = []"

definition get_prop :: "jsval \<Rightarrow> string \<Rightarrow> jsval" where
  "get_prop obj key = (case map_of (own_props obj) key of Some v \<Rightarrow> v | None \<Rightarrow> JUndefined)"

definition first_occurrences :: "'a list \<Rightarrow> 'a list" where
  "first_occurrences xs = rev (remdups (rev xs))"

fun own_keys :: "jsval \<Rightarrow> string list" where
  "own_keys (JObj kvs) = first_occurrences (map fst kvs)"
| "own_keys (JArr xs) = first_occurrences (map show_nat [0..<length xs])"
| "own_keys v = []"

text \<open>
  The platform functions the route calls: the conversion of a number to a string inside
  \<^verbatim>\<open>String(...)\<close>, \<^verbatim>\<open>parseFloat\<close>, and \<^verbatim>\<open>String.prototype.localeCompare\<close>, the collation
  of the runtime's locale. They are parameters of the model: a theorem holds for whatever
  they return, unless it says what it takes them to do.
\<close>

record platform =
  numberToString :: "jsnum \<Rightarrow> string"
  parseFloat :: "string \<Rightarrow> jsnum"
  localeCompare :: "string \<Rightarrow> string \<Rightarrow> int"

text \<open>\<^verbatim>\<open>String(v)\<close>: an array is its elements joined by commas, null and undefined ones empty.\<close>

fun join_comma :: "string list \<Rightarrow> string" where
  "join_comma [] = []"
| "join_comma [s] = s"
| "join_comma (s # t # ss) = s @ '','' @ join_comma (t # ss)"

fun js_String :: "platform \<Rightarrow> jsval \<Rightarrow> string" where
  "js_String env JUndefined = ''undefined''"
| "js_String env JNull = ''null''"
| "js_String env (JBool b) = (if b then ''true'' else ''false'')"
| "js_String env (JNum n) = numberToString env n"
| "js_String env (JStr s) = s"
| "js_String env (JArr xs) =
     join_comma (map (\<lambda>x. if x = JUndefined \<or> x = JNull then [] else js_String env x) xs)"
| "js_String env (JObj kvs) = ''[object Object]''"

text \<open>\<^verbatim>\<open>extractValue\<close>; \<^verbatim>\<open>undefined\<close> is \<open>None\<close>.\<close>

definition extractValue :: "platform \<Rightarrow> jsval \<Rightarrow> string \<Rightarrow> string option" where
  "extractValue env node key =
     (if \<not> truthy node \<or> \<not> is_object node then None
      else
        (let attrValue = get_prop node (''@_'' @ key)
         in if attrValue \<noteq> JUndefined \<and> attrValue \<noteq> JNull then Some (js_String env attrValue)
            else
              (let directValue = get_prop node key
               in if directValue \<noteq> JUndefined \<and> directValue \<noteq> JNull
                  then Some (js_String env directValue)
                  else None)))"

text \<open>A property is present when reading it gives neither \<^verbatim>\<open>undefined\<close> nor \<^verbatim>\<open>null\<close>.\<close>

definition present :: "jsval \<Rightarrow> bool" where
  "present v = (v \<noteq> JUndefined \<and> v \<noteq> JNull)"

subsection \<open>parseDataPoints\<close>

record DataPoint =
  date :: string
  val :: jsnum









text \<open>
  Two comparators, for the examples. \<open>codeUnitCompare\<close> compares strings by their code units;
  the collation agrees with it on dates of the form \<^verbatim>\<open>YYYY-MM-DD\<close>. \<open>caseFoldCompare\<close>
  compares letters without regard to case before anything else, lower case first among
  equals, which is how the collation orders ASCII letters: it puts \<^verbatim>\<open>a\<close> before \<^verbatim>\<open>B\<close>.
\<close>

definition codeUnitCompare :: "string \<Rightarrow> string \<Rightarrow> int" where
  "codeUnitCompare a b = (if a < b then - 1 else if a = b then 0 else 1)"

definition lower_case :: "char \<Rightarrow> char" where
  "lower_case c =
     (case map_of (zip ''ABCDEFGHIJKLMNOPQRSTUVWXYZ'' ''abcdefghijklmnopqrstuvwxyz'') c of
        Some l \<Rightarrow> l
      | None \<Rightarrow> c)"

definition caseFoldCompare :: "string \<Rightarrow> string \<Rightarrow> int" where
  "caseFoldCompare a b =
     (let a' = map lower_case a; b' = map lower_case b
      in if a' < b' then - 1 else if b' < a' then 1
         else if a = b then 0 else if b < a then - 1 else 1)"





subsection \<open>getChangesOnly and the latest pointer\<close>

function changesLoop :: "DataPoint list \<Rightarrow> nat \<Rightarrow> DataPoint list \<Rightarrow> DataPoint list" where
  "changesLoop series i changes =
     (if i < length series then
        changesLoop series (i + 1)
          (if jneq (val (series ! i)) (val (series ! (i - 1))) then changes @ [series ! i]
           else changes)
      else changes)"
  by pat_completeness auto
termination
  by (relation "measure (\<lambda>(series, i, changes). length series - i)") auto

definition getChangesOnly :: "DataPoint list \<Rightarrow> DataPoint list" where
  "getChangesOnly series = (if length series = 0 then [] else changesLoop series 1 [series ! 0])"

text \<open>
  The spec's rule for membership, for comparison: element \<open>i\<close> of the full series belongs
  to the changes-only view when it is element 0 or its value is \<^verbatim>\<open>!==\<close> that of element
  \<open>i - 1\<close> of the full series.
\<close>

definition changed :: "DataPoint list \<Rightarrow> nat \<Rightarrow> bool" where
  "changed series i = (i = 0 \<or> jneq (val (series ! i)) (val (series ! (i - 1))))"

text \<open>
  The \<^verbatim>\<open>latest\<close> field the handler computes from \<^verbatim>\<open>changesOnly\<close>; \<^verbatim>\<open>null\<close> is \<open>None\<close>.
\<close>

definition latest :: "DataPoint list \<Rightarrow> DataPoint option" where
  "latest changesOnly =
     (if length changesOnly > 0 then Some (changesOnly ! (length changesOnly - 1)) else None)"

subsection \<open>findCubesRecursive\<close>

text \<open>\<^verbatim>\<open>cubes.push(...cube)\<close> for an array, \<^verbatim>\<open>cubes.push(cube)\<close> otherwise.\<close>

definition pushed :: "jsval \<Rightarrow> jsval list" where
  "pushed cube = (if isArray cube then elems cube else [cube])"

function findCubesRecursive :: "jsval \<Rightarrow> nat \<Rightarrow> jsval list" where
  "findCubesRecursive obj depth =
     (if depth > 5 then []
      else
        (let cubes0 = (if truthy (get_prop obj ''Cube'') then pushed (get_prop obj ''Cube'') else []);
             cubes1 =
               (if truthy (get_prop obj ''cube'') then cubes0 @ pushed (get_prop obj ''cube'')
                else cubes0)
         in foldl
              (\<lambda>cubes key.
                 (let v = get_prop obj key
                  in if truthy v \<and> is_object v \<and> \<not> isArray v then
                       (let nested = findCubesRecursive v (depth + 1)
                        in if length nested > 0 then cubes @ nested else cubes)
                     else cubes))
              cubes1 (own_keys obj)))"
  by pat_completeness auto
termination
  by (relation "measure (\<lambda>(obj, depth). 6 - depth)") auto

text \<open>
  The spec's reading of the search, for comparison. \<open>own_cubes obj\<close> are the nodes stored
  under the keys \<^verbatim>\<open>Cube\<close> and \<^verbatim>\<open>cube\<close> of \<open>obj\<close> itself, in that order. The objects the
  search visits are the root and every property value that is an object and not an array, of
  an object already visited: \<open>reachable obj d target\<close> says that \<open>target\<close> is visited \<open>d\<close>
  levels below \<open>obj\<close>.
\<close>

definition own_cubes :: "jsval \<Rightarrow> jsval list" where
  "own_cubes obj =
     (if truthy (get_prop obj ''Cube'') then pushed (get_prop obj ''Cube'') else []) @
     (if truthy (get_prop obj ''cube'') then pushed (get_prop obj ''cube'') else [])"

inductive reachable :: "jsval \<Rightarrow> nat \<Rightarrow> jsval \<Rightarrow> bool" where
  reach_self: "reachable obj 0 obj"
| reach_step:
    "key \<in> set (own_keys obj) \<Longrightarrow> v = get_prop obj key \<Longrightarrow>
     truthy v \<Longrightarrow> is_object v \<Longrightarrow> \<not> isArray v \<Longrightarrow> reachable v d target \<Longrightarrow>
     reachable obj (Suc d) target"

code_pred reachable .

section \<open>Properties of rounding\<close>

text \<open>
  An integer is its own nearest integer, and rounding to the nearest integer moves a value
  by at most one half. In the binade of exponent \<open>e\<close> a value is rounded to a multiple of
  \<open>2 powi (e - 52)\<close>, which is how the double of a given rational is computed below. In the
  normal range rounding changes a value by at most one part in \<open>2 ^ 53\<close>, and it leaves
  integers below \<open>2 ^ 53\<close> as they are.
\<close>

lemma round_even_int [simp]: "round_even (of_int k) = k"
  by (simp add: round_even_def)

lemma round_even_err: "\<bar>of_int (round_even y) - y\<bar> \<le> 1 / 2"
proof -
  have "of_int \<lfloor>y\<rfloor> \<le> y" "y < of_int \<lfloor>y\<rfloor> + 1" by linarith+
  then show ?thesis by (auto simp add: round_even_def Let_def)
qed

lemma two_powr_int: "2 powr (real_of_int e) = (2::real) powi e"
  by (rule powr_real_of_int') simp_all

lemma binade_eq:
  assumes "2 powi e \<le> \<bar>x\<bar>" "\<bar>x\<bar> < 2 powi (e + 1)"
  shows "binade x = max e (- 1022)"
proof -
  have "(0::real) < 2 powi e" by simp
  with assms(1) have pos: "0 < \<bar>x\<bar>" by linarith
  have up: "2 powr (real_of_int e + 1) = (2::real) powi (e + 1)"
    using two_powr_int [of "e + 1"] by simp
  have "\<lfloor>log 2 \<bar>x\<bar>\<rfloor> = e"
    using assms floor_log_eq_powr_iff [OF pos, of 2 e] by (simp add: two_powr_int up)
  then show ?thesis by (simp add: binade_def)
qed

lemma binade_bounds:
  assumes "x \<noteq> 0"
  shows "2 powi \<lfloor>log 2 \<bar>x\<bar>\<rfloor> \<le> \<bar>x\<bar>" "\<bar>x\<bar> < 2 powi (\<lfloor>log 2 \<bar>x\<bar>\<rfloor> + 1)"
proof -
  have pos: "0 < \<bar>x\<bar>" using assms by simp
  have up: "2 powr (real_of_int e + 1) = (2::real) powi (e + 1)" for e
    using two_powr_int [of "e + 1"] by simp
  from floor_log_eq_powr_iff [OF pos, of 2 "\<lfloor>log 2 \<bar>x\<bar>\<rfloor>"]
  show "2 powi \<lfloor>log 2 \<bar>x\<bar>\<rfloor> \<le> \<bar>x\<bar>" "\<bar>x\<bar> < 2 powi (\<lfloor>log 2 \<bar>x\<bar>\<rfloor> + 1)"
    by (simp_all add: two_powr_int up)
qed

lemma rnd_eval:
  assumes "2 powi e \<le> \<bar>x\<bar>" "\<bar>x\<bar> < 2 powi (e + 1)" "- 1022 \<le> e"
  shows "rnd x = of_int (round_even (x / 2 powi (e - 52))) * 2 powi (e - 52)"
proof -
  have "(0::real) < 2 powi e" by simp
  with assms(1) have "0 < \<bar>x\<bar>" by linarith
  then have "x \<noteq> 0" by simp
  moreover have "binade x = e" using binade_eq [OF assms(1,2)] assms(3) by simp
  ultimately show ?thesis by (simp add: rnd_def quantum_def)
qed

lemma quantum_pos: "0 < quantum x"
  by (simp add: quantum_def)

lemma rnd_abs_err: "\<bar>rnd x - x\<bar> \<le> quantum x / 2"
proof (cases "x = 0")
  case True
  then show ?thesis using quantum_pos [of x] by (simp add: rnd_def)
next
  case False
  have q: "0 < quantum x" by (rule quantum_pos)
  have "rnd x - x = (of_int (round_even (x / quantum x)) - x / quantum x) * quantum x"
    using False q by (simp add: rnd_def field_simps)
  then have "\<bar>rnd x - x\<bar> = \<bar>of_int (round_even (x / quantum x)) - x / quantum x\<bar> * quantum x"
    using q by (simp add: abs_mult)
  also have "\<dots> \<le> 1 / 2 * quantum x"
    by (rule mult_right_mono [OF round_even_err]) (simp add: quantum_pos less_imp_le)
  finally show ?thesis by simp
qed

lemma quantum_normal:
  assumes "2 powi (- 1022) \<le> \<bar>x\<bar>"
  shows "quantum x \<le> \<bar>x\<bar> / 2 ^ 52"
proof -
  have "(0::real) < 2 powi (- 1022)" by simp
  with assms have "0 < \<bar>x\<bar>" by linarith
  then have nz: "x \<noteq> 0" by simp
  have "- 1022 \<le> \<lfloor>log 2 \<bar>x\<bar>\<rfloor>"
  proof -
    have "2 powr (real_of_int (- 1022)) \<le> \<bar>x\<bar>" using assms by (simp only: two_powr_int)
    then have "real_of_int (- 1022) \<le> log 2 \<bar>x\<bar>"
      using nz by (simp add: le_log_iff)
    then show ?thesis by (simp add: le_floor_iff)
  qed
  then have "binade x = \<lfloor>log 2 \<bar>x\<bar>\<rfloor>" by (simp add: binade_def)
  then have "quantum x = 2 powi \<lfloor>log 2 \<bar>x\<bar>\<rfloor> / 2 ^ 52"
    by (simp add: quantum_def power_int_diff)
  then show ?thesis using binade_bounds(1) [OF nz] by (simp add: divide_right_mono)
qed

lemma rnd_rel_err:
  assumes "2 powi (- 1022) \<le> \<bar>x\<bar>"
  shows "\<bar>rnd x - x\<bar> \<le> \<bar>x\<bar> / 2 ^ 53"
proof -
  have "\<bar>rnd x - x\<bar> \<le> quantum x / 2" by (rule rnd_abs_err)
  also have "\<dots> \<le> (\<bar>x\<bar> / 2 ^ 52) / 2" using quantum_normal [OF assms] by simp
  also have "\<dots> = \<bar>x\<bar> / 2 ^ 53" by simp
  finally show ?thesis .
qed

lemma rnd_normal_bound:
  assumes "2 powi (- 1022) \<le> \<bar>x\<bar>"
  shows "\<bar>rnd x\<bar> \<le> \<bar>x\<bar> * (1 + 1 / 2 ^ 53)"
proof -
  have "\<bar>rnd x\<bar> \<le> \<bar>x\<bar> + \<bar>rnd x - x\<bar>" by simp
  also have "\<dots> \<le> \<bar>x\<bar> + \<bar>x\<bar> / 2 ^ 53" using rnd_rel_err [OF assms] by simp
  also have "\<dots> = \<bar>x\<bar> * (1 + 1 / 2 ^ 53)" by (simp add: distrib_left)
  finally show ?thesis .
qed

lemma to_double_finite:
  assumes "2 powi (- 1022) \<le> \<bar>x\<bar>" "\<bar>x\<bar> \<le> 2 ^ 1023"
  shows "to_double x = Fin (rnd x)"
proof -
  have "\<bar>rnd x\<bar> \<le> \<bar>x\<bar> * (1 + 1 / 2 ^ 53)" by (rule rnd_normal_bound [OF assms(1)])
  also have "\<dots> \<le> 2 ^ 1023 * (1 + 1 / 2 ^ 53)"
    by (rule mult_right_mono [OF assms(2)]) simp
  also have "\<dots> < 2 ^ 1024" by simp
  finally show ?thesis by (simp add: to_double_def)
qed

lemma to_double_eval:
  assumes "2 powi e \<le> \<bar>x\<bar>" "\<bar>x\<bar> < 2 powi (e + 1)" "- 1022 \<le> e" "e \<le> 1022"
  shows "to_double x = Fin (of_int (round_even (x / 2 powi (e - 52))) * 2 powi (e - 52))"
proof -
  have lo: "(2::real) powi (- 1022) \<le> 2 powi e"
    by (rule power_int_increasing [OF assms(3)]) simp
  have hi: "(2::real) powi (e + 1) \<le> 2 powi 1023"
    by (rule power_int_increasing) (use assms(4) in simp_all)
  have "to_double x = Fin (rnd x)"
    by (rule to_double_finite) (use lo hi assms(1,2) in simp_all)
  then show ?thesis by (simp only: rnd_eval [OF assms(1,2,3)])
qed

lemma to_double_zero [simp]: "to_double 0 = Fin 0"
  by (simp add: to_double_def rnd_def)

lemma to_double_enclose:
  assumes "2 powi (- 1022) \<le> x" "x \<le> 2 ^ 1023"
  shows "\<exists>y. to_double x = Fin y \<and> x * (1 - 1 / 2 ^ 53) \<le> y \<and> y \<le> x * (1 + 1 / 2 ^ 53)"
proof -
  have "(0::real) < 2 powi (- 1022)" by simp
  with assms(1) have pos: "0 < x" by linarith
  have a: "2 powi (- 1022) \<le> \<bar>x\<bar>" "\<bar>x\<bar> \<le> 2 ^ 1023" using assms pos by simp_all
  have "\<bar>rnd x - x\<bar> \<le> x / 2 ^ 53" using rnd_rel_err [OF a(1)] pos by simp
  then have "x - x / 2 ^ 53 \<le> rnd x" "rnd x \<le> x + x / 2 ^ 53" by linarith+
  then have "x * (1 - 1 / 2 ^ 53) \<le> rnd x" "rnd x \<le> x * (1 + 1 / 2 ^ 53)"
    by (simp_all add: algebra_simps)
  with to_double_finite [OF a] show ?thesis by blast
qed

lemma round_even_ge_floor: "\<lfloor>y\<rfloor> \<le> round_even y"
  by (simp add: round_even_def Let_def)

lemma rnd_ge_one:
  assumes "1 \<le> x" "x < 2"
  shows "1 \<le> rnd x"
proof -
  have r: "rnd x = of_int (round_even (x / 2 powi (0 - 52))) * 2 powi (0 - 52)"
    by (rule rnd_eval) (use assms in simp_all)
  have "(2::real) ^ 52 \<le> x * 2 ^ 52" using assms(1) by simp
  then have "(2::int) ^ 52 \<le> \<lfloor>x * 2 ^ 52\<rfloor>" by (simp add: le_floor_iff)
  also have "\<dots> \<le> round_even (x * 2 ^ 52)" by (rule round_even_ge_floor)
  finally have "(2::real) ^ 52 \<le> of_int (round_even (x * 2 ^ 52))" 
    by (metis of_int_le_iff of_int_numeral of_int_power)
  then show ?thesis unfolding r by (simp add: field_simps)
qed

lemma rnd_int:
  assumes "\<bar>m\<bar> < 2 ^ 53"
  shows "rnd (of_int m) = of_int m"
proof (cases "m = 0")
  case True
  then show ?thesis by (simp add: rnd_def)
next
  case False
  define x where "x = real_of_int m"
  define e where "e = \<lfloor>log 2 \<bar>x\<bar>\<rfloor>"
  have nz: "x \<noteq> 0" using False by (simp add: x_def)
  have one: "1 \<le> \<bar>x\<bar>" using False by (simp add: x_def)
  have b: "2 powi e \<le> \<bar>x\<bar>" "\<bar>x\<bar> < 2 powi (e + 1)"
    using binade_bounds [OF nz] by (simp_all add: e_def)
  have e0: "0 \<le> e"
  proof (rule ccontr)
    assume "\<not> 0 \<le> e"
    then have "e + 1 \<le> 0" by simp
    then have "(2::real) powi (e + 1) \<le> 2 powi 0" by (rule power_int_increasing) simp
    with b(2) one show False by simp
  qed
  have "real_of_int \<bar>m\<bar> < real_of_int (2 ^ 53)" using assms by (simp only: of_int_less_iff)
  then have "\<bar>x\<bar> < 2 ^ 53" by (simp add: x_def)
  with b(1) have "(2::real) powi e < 2 powi 53" by simp
  then have e52: "e \<le> 52"
    using power_int_le_imp_less_exp [of "2::real" e 53] by simp
  have r: "rnd x = of_int (round_even (x / 2 powi (e - 52))) * 2 powi (e - 52)"
    by (rule rnd_eval [OF b]) (use e0 in simp)
  have q: "(2::real) powi (e - 52) = 1 / 2 ^ nat (52 - e)"
    using e52 by (simp add: power_int_def field_simps)
  have "x / 2 powi (e - 52) = of_int (m * 2 ^ nat (52 - e))"
    by (simp add: q x_def)
  then have "round_even (x / 2 powi (e - 52)) = m * 2 ^ nat (52 - e)"
    by (simp only: round_even_int)
  then show ?thesis unfolding x_def [symmetric] r by (simp add: q x_def)
qed

lemma to_double_int:
  assumes "\<bar>m\<bar> < 2 ^ 53"
  shows "to_double (of_int m) = Fin (of_int m)"
proof -
  have "real_of_int \<bar>m\<bar> < real_of_int (2 ^ 53)" using assms by (simp only: of_int_less_iff)
  then have "\<bar>real_of_int m\<bar> < 2 ^ 53" by simp
  then show ?thesis by (simp add: to_double_def rnd_int [OF assms])
qed

lemma to_double_nat: "k < 2 ^ 53 \<Longrightarrow> to_double (real k) = Fin (real k)"
  using to_double_int [of "int k"] by simp


lemma to_double_normal:
  assumes "1 / 2 ^ 1000 \<le> x" "x \<le> 2 ^ 1000"
  shows "\<exists>y. to_double x = Fin y \<and> x * ulp_lo \<le> y \<and> y \<le> x * ulp_hi \<and>
             x / 2 \<le> y \<and> y \<le> 2 * x \<and> 0 < y"
proof -
  have "(0::real) < 1 / 2 ^ 1000" by simp
  with assms(1) have pos: "0 < x" by linarith
  have "(2::real) powi (- 1022) \<le> 1 / 2 ^ 1000" by simp
  with assms(1) have lo: "2 powi (- 1022) \<le> x" by linarith
  have "(2::real) ^ 1000 \<le> 2 ^ 1023" by simp
  with assms(2) have hi: "x \<le> 2 ^ 1023" by linarith
  from to_double_enclose [OF lo hi] obtain y where
    y: "to_double x = Fin y" "x * ulp_lo \<le> y" "y \<le> x * ulp_hi"
    unfolding ulp_lo_def ulp_hi_def by blast
  have "x * (1 / 2) \<le> x * ulp_lo"
    by (rule mult_left_mono) (use pos in \<open>simp_all add: ulp_lo_def\<close>)
  with y(2) have a: "x / 2 \<le> y" by simp
  have "x * ulp_hi \<le> x * 2"
    by (rule mult_left_mono) (use pos in \<open>simp_all add: ulp_hi_def\<close>)
  with y(3) have b: "y \<le> 2 * x" by simp
  from a pos have "0 < y" by linarith
  with y a b show ?thesis by blast
qed

section \<open>The calculators on bad input\<close>

text \<open>
  Claim C3, as the guards implement it: whenever an argument is NaN or negative, the two
  payment functions return zero and the two savings functions return the balance they were
  given. The functions are total, and no operator of the model raises. The guards test
  \<^verbatim>\<open>x < 0\<close> and \<^verbatim>\<open>isNaN(x)\<close> only, so positive infinity is not among the inputs
  that fall back to the default.
\<close>

theorem calculators_guard_bad_input:
  "(isNaN p \<or> isNaN r \<or> isNaN y \<or> jlt p (Fin 0) \<or> jlt r (Fin 0) \<or> jlt y (Fin 0) \<longrightarrow>
      monthlyPaymentAmortised p r y = Fin 0 \<and>
      savingsCompoundMonthly p r y = p \<and>
      savingsSimple p r y = p) \<and>
   (isNaN p \<or> isNaN r \<or> jlt p (Fin 0) \<or> jlt r (Fin 0) \<longrightarrow>
      monthlyPaymentInterestOnly p r = Fin 0)"
  by (simp add: monthlyPaymentAmortised_def savingsCompoundMonthly_def savingsSimple_def
      monthlyPaymentInterestOnly_def)

theorem calculators_guard_bad_input_witness:
  "monthlyPaymentAmortised (Fin (- 1)) NaN (Fin 25) = Fin 0 \<and>
   savingsCompoundMonthly (Fin (- 1)) NaN (Fin 25) = Fin (- 1) \<and>
   savingsSimple (Fin (- 1)) NaN (Fin 25) = Fin (- 1) \<and>
   monthlyPaymentInterestOnly (Fin (- 1)) NaN = Fin 0"
  using calculators_guard_bad_input [of "Fin (- 1)" NaN "Fin 25"]
  by (simp add: isNaN_def)

text \<open>
  With a principal of positive infinity the interest-only payment is infinite, not zero, and
  with an infinite rate the compound balance is infinite, not the balance passed in.
\<close>

theorem calculators_infinite_input_counterexample:
  "monthlyPaymentInterestOnly PInf (Fin 5) \<noteq> Fin 0 \<and>
   savingsCompoundMonthly (Fin 100) PInf (Fin 12) \<noteq> Fin 100"
proof -
  have "jdiv (Fin 5) (Fin 100) = Fin (3602879701896397 / 72057594037927936)"
    by (simp add: to_double_eval [where e = "- 5"] round_even_def)
  then have "jdiv (jdiv (Fin 5) (Fin 100)) (Fin 12) = Fin (4803839602528529 / 1152921504606846976)"
    by (simp add: to_double_eval [where e = "- 8"] round_even_def)
  then show ?thesis
    by (simp add: monthlyPaymentInterestOnly_def savingsCompoundMonthly_def isNaN_def jeq_def
      of_sign_def jpow_def jgt_def)
qed

section \<open>The interest-only payment\<close>







section \<open>The credit-card payoff\<close>

text \<open>
  The tolerance \<^verbatim>\<open>0.01\<close> as a double, and the monthly rate the simulation computes from
  an annual rate of 18 percent.
\<close>

lemma lit_tolerance: "rnd (1 / 100) = 5764607523034235 / 576460752303423488"
  by (simp add: rnd_eval [where e = "- 7"] round_even_def)




text \<open>
  How the loop leaves when no repayment falls short: below the cap, a balance at or under
  the tolerance returns the month counter; at the cap the result is "will not repay",
  whatever the balance is.
\<close>

lemma payoff_exit_below_cap:
  "\<not> jgt b (Fin (rnd (1 / 100))) \<Longrightarrow> m < maxMonths \<Longrightarrow>
   payoffLoop rate pay b acc m =
     \<lparr>monthsToRepay = Some m, totalInterest = acc, willNotRepay = False\<rparr>"
  by simp

lemma payoff_exit_at_cap:
  "maxMonths \<le> m \<Longrightarrow>
   payoffLoop rate pay b acc m =
     \<lparr>monthsToRepay = None, totalInterest = acc, willNotRepay = True\<rparr>"
  by simp

text \<open>
  A balance of 600 at a rate of zero, repaid by 1 a month: each month the interest is zero
  and the balance falls by one, so after \<open>k\<close> more months a balance of \<open>k\<close> is gone.
\<close>

lemma to_double_Suc: "Suc k < 2 ^ 53 \<Longrightarrow> to_double (1 + real k) = Fin (1 + real k)"
  using to_double_nat [of "Suc k"] by simp

lemma payoff_zero_rate_run:
  "k \<le> maxMonths \<Longrightarrow>
   payoffLoop (Fin 0) (Fin 1) (Fin (real k)) (Fin 0) (maxMonths - k) =
     payoffLoop (Fin 0) (Fin 1) (Fin 0) (Fin 0) maxMonths"
proof (induction k)
  case 0
  show ?case by simp
next
  case (Suc k)
  have a: "maxMonths - Suc k < maxMonths" using Suc.prems by (simp add: maxMonths_def)
  have b: "maxMonths - Suc k + 1 = maxMonths - k" using Suc.prems by simp
  have small: "Suc k < 2 ^ 53" "k < 2 ^ 53" using Suc.prems by (simp_all add: maxMonths_def)
  have "payoffLoop (Fin 0) (Fin 1) (Fin (real (Suc k))) (Fin 0) (maxMonths - Suc k) =
        payoffLoop (Fin 0) (Fin 1) (Fin (real k)) (Fin 0) (maxMonths - k)"
    apply (subst payoffLoop.simps)
    using a b small
    by (simp add: jgt_def jsub_def lit_tolerance to_double_Suc to_double_nat Let_def
        del: payoffLoop.simps)
  then show ?case using Suc by simp
qed

text \<open>
  Claim C4 at that input: the 600th iteration brings the balance to zero, within the cap,
  and the loop leaves with the month counter at 600. The test after the loop,
  \<^verbatim>\<open>months >= maxMonths\<close>, then reports the debt as one that will not be repaid, with no
  month count.
\<close>

theorem payoff_repaid_in_600_months:
  "payoffLoop (Fin 0) (Fin 1) (Fin 600) (Fin 0) 0 =
     payoffLoop (Fin 0) (Fin 1) (Fin 0) (Fin 0) 600 \<and>
   simulateCreditCardPayoff (Fin 600) (Fin 0) (Fin 1) =
     \<lparr>monthsToRepay = None, totalInterest = Fin 0, willNotRepay = True\<rparr>"
proof -
  have run: "payoffLoop (Fin 0) (Fin 1) (Fin 600) (Fin 0) 0 =
             payoffLoop (Fin 0) (Fin 1) (Fin 0) (Fin 0) 600"
    using payoff_zero_rate_run [of 600] by (simp add: maxMonths_def)
  have fin: "payoffLoop (Fin 0) (Fin 1) (Fin 0) (Fin 0) 600 =
             \<lparr>monthsToRepay = None, totalInterest = Fin 0, willNotRepay = True\<rparr>"
    by (simp add: jgt_def maxMonths_def)
  have "simulateCreditCardPayoff (Fin 600) (Fin 0) (Fin 1) =
        payoffLoop (Fin 0) (Fin 1) (Fin 600) (Fin 0) 0"
    by (simp add: simulateCreditCardPayoff_def jeq_def del: payoffLoop.simps)
  with run fin show ?thesis by simp
qed

section \<open>Compound against simple savings\<close>

text \<open>
  Bernoulli's inequality for a real exponent: in exact arithmetic \<open>(1 + x)\<^sup>n\<close> is at least
  \<open>1 + n \<sqdot> x\<close>, so that compounding dominates simple interest.
\<close>

lemma bernoulli_real_exponent:
  fixes x n :: real
  assumes x: "0 \<le> x" and n: "1 \<le> n"
  shows "1 + n * x \<le> (1 + x) powr n"
proof -
  define f where "f = (\<lambda>t::real. (1 + t) powr n - (1 + n * t))"
  have "f 0 \<le> f x"
  proof (rule DERIV_nonneg_imp_nondecreasing [OF x])
    fix t :: real
    assume t: "0 \<le> t" "t \<le> x"
    have d: "(f has_real_derivative (n * (1 + t) powr (n - 1) - n)) (at t)"
      unfolding f_def using t
      by (auto intro!: derivative_eq_intros simp add: field_simps)
    have "1 \<le> (1 + t) powr (n - 1)"
      using t n by (simp add: ge_one_powr_ge_zero)
    then have "0 \<le> n * (1 + t) powr (n - 1) - n"
      using n by (simp add: mult_le_cancel_left1)
    with d show "\<exists>y. (f has_real_derivative y) (at t) \<and> 0 \<le> y" by blast
  qed
  then show ?thesis by (simp add: f_def)
qed

text \<open>
  The monthly rate both functions compute, \<^verbatim>\<open>annualRatePct / 100 / 12\<close>, against
  \<open>r / 1200\<close>.
\<close>

lemma monthly_rate_enclosure:
  assumes r: "1 / 2 ^ 100 \<le> r" "r \<le> 2 ^ 100"
  shows "\<exists>m. jdiv (jdiv (Fin r) (Fin 100)) (Fin 12) = Fin m \<and> 0 < m \<and> 1 / 2 ^ 113 \<le> m \<and>
             r / 1200 * (ulp_lo * ulp_lo) \<le> m \<and> m \<le> r / 1200 * (ulp_hi * ulp_hi)"
proof -
  have U0: "0 \<le> ulp_hi" and L0: "0 \<le> ulp_lo" by (simp_all add: ulp_hi_def ulp_lo_def)
  have "1 / 2 ^ 1000 \<le> r / 100" "r / 100 \<le> 2 ^ 1000"
    using r by (simp_all add: field_simps)
  then obtain x1 where x1: "to_double (r / 100) = Fin x1"
      "r / 100 * ulp_lo \<le> x1" "x1 \<le> r / 100 * ulp_hi" "r / 100 / 2 \<le> x1" "x1 \<le> 2 * (r / 100)"
    using to_double_normal [of "r / 100"] by blast
  have "1 / 2 ^ 1000 \<le> x1 / 12" "x1 / 12 \<le> 2 ^ 1000"
    using r x1(4,5) by (simp_all add: field_simps)
  then obtain m where m: "to_double (x1 / 12) = Fin m"
      "x1 / 12 * ulp_lo \<le> m" "m \<le> x1 / 12 * ulp_hi" "x1 / 12 / 2 \<le> m" "m \<le> 2 * (x1 / 12)"
      "0 < m"
    using to_double_normal [of "x1 / 12"] by blast
  have m_lo: "1 / 2 ^ 113 \<le> m"
    using r x1(4,5) m(4,5) by (simp add: field_simps)
  have m_up: "m \<le> r / 1200 * (ulp_hi * ulp_hi)"
  proof -
    have "x1 / 12 * ulp_hi \<le> (r / 100 * ulp_hi) / 12 * ulp_hi"
      by (intro mult_right_mono divide_right_mono x1(3) U0) simp
    with m(3) show ?thesis by (simp add: field_simps)
  qed
  have m_dn: "r / 1200 * (ulp_lo * ulp_lo) \<le> m"
  proof -
    have "(r / 100 * ulp_lo) / 12 * ulp_lo \<le> x1 / 12 * ulp_lo"
      by (intro mult_right_mono divide_right_mono x1(2) L0) simp
    with m(2) show ?thesis by (simp add: field_simps)
  qed
  have "jdiv (jdiv (Fin r) (Fin 100)) (Fin 12) = Fin m"
    using x1(1) m(1) by simp
  with m(6) m_lo m_dn m_up show ?thesis by blast
qed

text \<open>
  With every step rounded, the compound balance can fall below the simple one, but by no
  more than the roundings account for: for a balance between \<open>2\<^sup>-\<^sup>1\<^sup>0\<^sup>0\<close> and \<open>2\<^sup>1\<^sup>0\<^sup>0\<close>, a rate
  between \<open>2\<^sup>-\<^sup>1\<^sup>0\<^sup>0\<close> and 100 percent and up to 1200 months, both results are finite and the
  compound balance is at least the simple one less one part in \<open>2 ^ 41\<close>.
\<close>

lemma savings_dominates_up_to_rounding:
  assumes b: "1 / 2 ^ 100 \<le> b" "b \<le> 2 ^ 100"
    and r: "1 / 2 ^ 100 \<le> r" "r \<le> 100"
    and n: "1 < n" "n \<le> 1200"
  shows "\<exists>c v. savingsCompoundMonthly (Fin b) (Fin r) (Fin n) = Fin c \<and>
               savingsSimple (Fin b) (Fin r) (Fin n) = Fin v \<and>
               v * (1 - 1 / 2 ^ 41) \<le> c"
proof -
  have U0: "0 \<le> ulp_hi" "1 \<le> ulp_hi" and L0: "0 \<le> ulp_lo"
    by (simp_all add: ulp_hi_def ulp_lo_def)
  have "(0::real) < 1 / 2 ^ 100" by simp
  with b(1) r(1) have bpos: "0 < b" and rpos: "0 < r" by linarith+
  have "r \<le> 2 ^ 100" using r(2) by simp
  from monthly_rate_enclosure [OF r(1) this] obtain m where
    m: "jdiv (jdiv (Fin r) (Fin 100)) (Fin 12) = Fin m" "0 < m" "1 / 2 ^ 113 \<le> m"
       "m \<le> r / 1200 * (ulp_hi * ulp_hi)"
    by blast
  have m10: "m \<le> 1 / 10"
  proof -
    have "r / 1200 * (ulp_hi * ulp_hi) \<le> 100 / 1200 * (ulp_hi * ulp_hi)"
      by (intro mult_right_mono divide_right_mono r(2)) (simp_all add: ulp_hi_def)
    also have "\<dots> \<le> 1 / 10" by (simp add: ulp_hi_def)
    finally show ?thesis using m(4) by linarith
  qed
  define X where "X = 1 + m * n"
  have npos: "0 < n" using n(1) by simp
  have mn: "0 < m * n" "m * n \<le> 120"
  proof -
    show "0 < m * n" using m(2) npos by simp
    have "m * n \<le> 1 / 10 * 1200"
      by (rule mult_mono [OF m10 n(2)]) (use npos in simp_all)
    then show "m * n \<le> 120" by simp
  qed
  have X1: "1 \<le> X" "X \<le> 121" using mn by (simp_all add: X_def)
  \<comment> \<open>the compound side\<close>
  have "1 / 2 ^ 1000 \<le> 1 + m" "1 + m \<le> 2 ^ 1000" using m(2) m10 by simp_all
  then obtain a where a: "to_double (1 + m) = Fin a" "(1 + m) * ulp_lo \<le> a"
      "a \<le> (1 + m) * ulp_hi"
    using to_double_normal [of "1 + m"] by blast
  have a1: "1 \<le> a"
  proof -
    have "to_double (1 + m) = Fin (rnd (1 + m))"
      by (rule to_double_finite) (use m(2) m10 in simp_all)
    with a(1) have "a = rnd (1 + m)" by simp
    moreover have "1 \<le> rnd (1 + m)" by (rule rnd_ge_one) (use m(2) m10 in simp_all)
    ultimately show ?thesis by simp
  qed
  have a65: "a \<le> 6 / 5"
  proof -
    have "(1 + m) * ulp_hi \<le> 11 / 10 * ulp_hi"
      by (rule mult_right_mono) (use m10 U0 in simp_all)
    also have "\<dots> \<le> 6 / 5" by (simp add: ulp_hi_def)
    finally show ?thesis using a(3) by linarith
  qed
  have pw1: "1 \<le> a powr n" using a1 npos by (simp add: ge_one_powr_ge_zero)
  have pw_hi: "a powr n \<le> 2 ^ 400"
  proof -
    have "a powr n \<le> (6 / 5) powr n"
      by (rule powr_mono2) (use a1 a65 npos in simp_all)
    also have "\<dots> \<le> (6 / 5) powr 1200"
      by (rule powr_mono) (use n(2) in simp_all)
    also have "\<dots> = ((6 / 5) ^ 3) ^ 400"
      by (simp add: power_mult [symmetric])
    also have "\<dots> \<le> 2 ^ 400"
      by (rule power_mono) (simp_all add: power3_eq_cube)
    finally show ?thesis .
  qed
  have bern: "X * (1 - 1320 / 2 ^ 53) \<le> a powr n"
  proof -
    have "(1 + m) * ulp_lo = m + 1 - (1 + m) / 2 ^ 53"
      by (simp add: ulp_lo_def field_simps)
    with a(2) have h1: "m - (1 + m) / 2 ^ 53 \<le> a - 1" by linarith
    have h2: "n * (m - (1 + m) / 2 ^ 53) \<le> n * (a - 1)"
      by (rule mult_left_mono [OF h1]) (use npos in simp)
    have "n * (1 + m) \<le> 1200 * (11 / 10)"
      by (rule mult_mono [OF n(2)]) (use m10 m(2) in simp_all)
    then have h3: "n * (1 + m) / 2 ^ 53 \<le> 1320 / 2 ^ 53" by (simp add: divide_right_mono)
    have h4: "n * (m - (1 + m) / 2 ^ 53) = m * n - n * (1 + m) / 2 ^ 53"
      by (simp add: algebra_simps)
    have "1320 / 2 ^ 53 * 1 \<le> 1320 / 2 ^ 53 * X"
      by (rule mult_left_mono [OF X1(1)]) simp
    then have "X * (1 - 1320 / 2 ^ 53) \<le> X - 1320 / 2 ^ 53"
      by (simp add: algebra_simps)
    also have "\<dots> \<le> 1 + n * (a - 1)"
      using h2 h3 unfolding h4 X_def by linarith
    also have "\<dots> \<le> (1 + (a - 1)) powr n"
      by (rule bernoulli_real_exponent) (use a1 n(1) in simp_all)
    finally show ?thesis by simp
  qed
  have "(1::real) / 2 ^ 1000 \<le> 1" "(2::real) ^ 400 \<le> 2 ^ 1000" by simp_all
  with pw1 pw_hi have "1 / 2 ^ 1000 \<le> a powr n" "a powr n \<le> 2 ^ 1000" by linarith+
  then obtain w where w: "to_double (a powr n) = Fin w" "a powr n * ulp_lo \<le> w"
      "a powr n / 2 \<le> w" "w \<le> 2 * a powr n"
    using to_double_normal [of "a powr n"] by blast
  have w_rng: "1 / 2 \<le> w" "w \<le> 2 ^ 401" using w(3,4) pw1 pw_hi by simp_all
  have "1 / 2 ^ 1000 \<le> b * w" "b * w \<le> 2 ^ 1000"
  proof -
    have "1 / 2 ^ 100 * (1 / 2) \<le> b * w"
      by (rule mult_mono [OF b(1) w_rng(1)]) (use bpos in simp_all)
    then show "1 / 2 ^ 1000 \<le> b * w" by simp
    have "b * w \<le> 2 ^ 100 * 2 ^ 401"
      by (rule mult_mono [OF b(2) w_rng(2)]) (use w_rng(1) in simp_all)
    then show "b * w \<le> 2 ^ 1000" by simp
  qed
  then obtain c where c: "to_double (b * w) = Fin c" "b * w * ulp_lo \<le> c"
    using to_double_normal [of "b * w"] by blast
  have pow: "jpow (Fin a) (Fin n) = Fin w"
    using a1 npos w(1) by (simp add: jpow_def finite_pow_def)
  have comp: "savingsCompoundMonthly (Fin b) (Fin r) (Fin n) = Fin c"
    unfolding savingsCompoundMonthly_def Let_def m(1)
    using bpos rpos npos a(1) pow c(1) by (simp add: isNaN_def jeq_def)
  \<comment> \<open>the simple side\<close>
  have "1 / 2 ^ 1000 \<le> m * n" "m * n \<le> 2 ^ 1000"
  proof -
    have "1 / 2 ^ 113 * 1 \<le> m * n"
      by (rule mult_mono [OF m(3)]) (use n(1) m(2) in simp_all)
    then show "1 / 2 ^ 1000 \<le> m * n" by simp
    show "m * n \<le> 2 ^ 1000" using mn(2) by simp
  qed
  then obtain t where t: "to_double (m * n) = Fin t" "t \<le> m * n * ulp_hi" "0 < t" "t \<le> 2 * (m * n)"
    using to_double_normal [of "m * n"] by blast
  have "1 / 2 ^ 1000 \<le> 1 + t" "1 + t \<le> 2 ^ 1000" using t(3,4) mn(2) by simp_all
  then obtain s where s: "to_double (1 + t) = Fin s" "s \<le> (1 + t) * ulp_hi" "(1 + t) / 2 \<le> s"
      "s \<le> 2 * (1 + t)"
    using to_double_normal [of "1 + t"] by blast
  have s_rng: "1 / 2 \<le> s" "s \<le> 2 ^ 9" using s(3,4) t(3,4) mn(2) by simp_all
  have "1 / 2 ^ 1000 \<le> b * s" "b * s \<le> 2 ^ 1000"
  proof -
    have "1 / 2 ^ 100 * (1 / 2) \<le> b * s"
      by (rule mult_mono [OF b(1) s_rng(1)]) (use bpos in simp_all)
    then show "1 / 2 ^ 1000 \<le> b * s" by simp
    have "b * s \<le> 2 ^ 100 * 2 ^ 9"
      by (rule mult_mono [OF b(2) s_rng(2)]) (use s_rng(1) in simp_all)
    then show "b * s \<le> 2 ^ 1000" by simp
  qed
  then obtain v where v: "to_double (b * s) = Fin v" "v \<le> b * s * ulp_hi" "0 < v"
    using to_double_normal [of "b * s"] by blast
  have simple: "savingsSimple (Fin b) (Fin r) (Fin n) = Fin v"
    unfolding savingsSimple_def Let_def m(1)
    using bpos rpos npos t(1) s(1) v(1) by (simp add: isNaN_def jeq_def)
  have K: "ulp_hi * ulp_hi * ulp_hi * (1 - 1 / 2 ^ 41) \<le> (1 - 1320 / 2 ^ 53) * (ulp_lo * ulp_lo)"
    by (simp add: ulp_hi_def ulp_lo_def)
  have v_up: "v \<le> b * X * (ulp_hi * ulp_hi * ulp_hi)"
  proof -
    have "1 + t \<le> 1 + m * n * ulp_hi" using t(2) by simp
    also have "\<dots> \<le> ulp_hi + m * n * ulp_hi" using U0(2) by simp
    also have "\<dots> = X * ulp_hi" by (simp add: X_def algebra_simps)
    finally have "(1 + t) * ulp_hi \<le> X * ulp_hi * ulp_hi"
      by (rule mult_right_mono) (rule U0(1))
    with s(2) have "s \<le> X * ulp_hi * ulp_hi" by linarith
    then have "b * s \<le> b * (X * ulp_hi * ulp_hi)"
      by (rule mult_left_mono) (use bpos in simp)
    then have "b * s * ulp_hi \<le> b * (X * ulp_hi * ulp_hi) * ulp_hi"
      by (rule mult_right_mono) (rule U0(1))
    with v(2) show ?thesis by (simp add: mult.assoc)
  qed
  have c_dn: "b * X * ((1 - 1320 / 2 ^ 53) * (ulp_lo * ulp_lo)) \<le> c"
  proof -
    have "X * (1 - 1320 / 2 ^ 53) * ulp_lo \<le> a powr n * ulp_lo"
      by (rule mult_right_mono [OF bern L0])
    with w(2) have "X * (1 - 1320 / 2 ^ 53) * ulp_lo \<le> w" by linarith
    then have "b * (X * (1 - 1320 / 2 ^ 53) * ulp_lo) \<le> b * w"
      by (rule mult_left_mono) (use bpos in simp)
    then have "b * (X * (1 - 1320 / 2 ^ 53) * ulp_lo) * ulp_lo \<le> b * w * ulp_lo"
      by (rule mult_right_mono) (rule L0)
    with c(2) show ?thesis by (simp add: mult.assoc)
  qed
  have "v * (1 - 1 / 2 ^ 41) \<le> b * X * (ulp_hi * ulp_hi * ulp_hi) * (1 - 1 / 2 ^ 41)"
    by (rule mult_right_mono [OF v_up]) simp
  also have "\<dots> = b * X * (ulp_hi * ulp_hi * ulp_hi * (1 - 1 / 2 ^ 41))"
    by (simp add: mult.assoc)
  also have "\<dots> \<le> b * X * ((1 - 1320 / 2 ^ 53) * (ulp_lo * ulp_lo))"
    by (rule mult_left_mono [OF K]) (use bpos X1(1) in simp)
  also have "\<dots> \<le> c" by (rule c_dn)
  finally have "v * (1 - 1 / 2 ^ 41) \<le> c" .
  with comp simple show ?thesis by blast
qed

text \<open>
  A balance of 1 at a rate of \<open>2\<^sup>-\<^sup>4\<^sup>4\<close> percent over 1024 months. The monthly rate is below
  \<open>2\<^sup>-\<^sup>5\<^sup>3\<close>, so \<^verbatim>\<open>1 + monthlyRate\<close> rounds to 1 and the compound balance is 1, while
  \<^verbatim>\<open>monthlyRate * months\<close> is large enough to survive the addition to 1.
\<close>

lemma savings_small_rate_values:
  "savingsCompoundMonthly (Fin 1) (Fin (1 / 2 ^ 44)) (Fin 1024) = Fin 1 \<and>
   savingsSimple (Fin 1) (Fin (1 / 2 ^ 44)) (Fin 1024) =
     Fin (2251799813685357 / 2251799813685248)"
proof -
  have d1: "jdiv (Fin (1 / 2 ^ 44)) (Fin 100) =
            Fin (5764607523034235 / 10141204801825835211973625643008)"
    by (simp add: to_double_eval [where e = "- 51"] round_even_def)
  have mr: "jdiv (jdiv (Fin (1 / 2 ^ 44)) (Fin 100)) (Fin 12) =
            Fin (7686143364045647 / 162259276829213363391578010288128)"
    unfolding d1 by (simp add: to_double_eval [where e = "- 55"] round_even_def)
  have one: "jadd (Fin 1) (Fin (7686143364045647 / 162259276829213363391578010288128)) = Fin 1"
    by (simp add: to_double_eval [where e = 0] round_even_def)
  have pw: "jpow (Fin 1) (Fin 1024) = Fin 1"
    by (simp add: jpow_def finite_pow_def to_double_eval [where e = 0] round_even_def)
  have c: "jmul (Fin 1) (Fin 1) = Fin 1"
    by (simp add: to_double_eval [where e = 0] round_even_def)
  have t: "jmul (Fin (7686143364045647 / 162259276829213363391578010288128)) (Fin 1024) =
           Fin (7686143364045647 / 158456325028528675187087900672)"
    by (simp add: to_double_eval [where e = "- 45"] round_even_def)
  have s: "jadd (Fin 1) (Fin (7686143364045647 / 158456325028528675187087900672)) =
           Fin (2251799813685357 / 2251799813685248)"
    by (simp add: to_double_eval [where e = 0] round_even_def)
  have v: "jmul (Fin 1) (Fin (2251799813685357 / 2251799813685248)) =
           Fin (2251799813685357 / 2251799813685248)"
    by (simp add: to_double_eval [where e = 0] round_even_def)
  have "savingsCompoundMonthly (Fin 1) (Fin (1 / 2 ^ 44)) (Fin 1024) = Fin 1"
    unfolding savingsCompoundMonthly_def Let_def mr one pw c
    by (simp add: isNaN_def jeq_def)
  moreover have "savingsSimple (Fin 1) (Fin (1 / 2 ^ 44)) (Fin 1024) =
     Fin (2251799813685357 / 2251799813685248)"
    unfolding savingsSimple_def Let_def mr t s v
    by (simp add: isNaN_def jeq_def)
  ultimately show ?thesis by blast
qed

text \<open>
  Claim C8, as far as it holds: for a balance between \<open>2\<^sup>-\<^sup>1\<^sup>0\<^sup>0\<close> and \<open>2\<^sup>1\<^sup>0\<^sup>0\<close>, a rate between
  \<open>2\<^sup>-\<^sup>1\<^sup>0\<^sup>0\<close> and 100 percent, and more than one and at most 1200 months, both functions
  return finite numbers and the compound balance is at least the simple balance less one
  part in \<open>2 ^ 41\<close>.
\<close>

theorem savings_compound_dominates:
  "1 / 2 ^ 100 \<le> b \<and> b \<le> 2 ^ 100 \<and> 1 / 2 ^ 100 \<le> r \<and> r \<le> 100 \<and> 1 < n \<and> n \<le> 1200 \<longrightarrow>
     (\<exists>c v. savingsCompoundMonthly (Fin b) (Fin r) (Fin n) = Fin c \<and>
            savingsSimple (Fin b) (Fin r) (Fin n) = Fin v \<and>
            v * (1 - 1 / 2 ^ 41) \<le> c)"
  using savings_dominates_up_to_rounding [of b r n] by blast

theorem savings_compound_dominates_witness:
  "savingsCompoundMonthly (Fin 1) (Fin (1 / 2 ^ 44)) (Fin 1024) = Fin 1 \<and>
   savingsSimple (Fin 1) (Fin (1 / 2 ^ 44)) (Fin 1024) =
     Fin (2251799813685357 / 2251799813685248) \<and>
   2251799813685357 / 2251799813685248 * (1 - 1 / 2 ^ 41) \<le> (1::real)"
proof -
  from savings_compound_dominates [of 1 "1 / 2 ^ 44" 1024]
  obtain c v where cv: "savingsCompoundMonthly (Fin 1) (Fin (1 / 2 ^ 44)) (Fin 1024) = Fin c"
    "savingsSimple (Fin 1) (Fin (1 / 2 ^ 44)) (Fin 1024) = Fin v"
    "v * (1 - 1 / 2 ^ 41) \<le> c"
    by auto
  from savings_small_rate_values
  have vals: "savingsCompoundMonthly (Fin 1) (Fin (1 / 2 ^ 44)) (Fin 1024) = Fin 1"
    "savingsSimple (Fin 1) (Fin (1 / 2 ^ 44)) (Fin 1024) =
       Fin (2251799813685357 / 2251799813685248)"
    by blast+
  have "c = 1" using cv(1) unfolding vals(1) by simp
  moreover have "v = 2251799813685357 / 2251799813685248" using cv(2) unfolding vals(2) by simp
  ultimately have "2251799813685357 / 2251799813685248 * (1 - 1 / 2 ^ 41) \<le> (1::real)"
    using cv(3) by simp
  with vals show ?thesis by blast
qed

text \<open>
  At a balance of 1, a rate of \<open>2\<^sup>-\<^sup>4\<^sup>4\<close> percent and 1024 months, all above the bounds the
  claim sets, the compound balance is 1 and the simple balance is greater.
\<close>

theorem savings_rounding_counterexample:
  "jgt (Fin (1 / 2 ^ 44)) (Fin 0) \<and> jgt (Fin 1024) (Fin 1) \<and> jgt (Fin 1) (Fin 0) \<and>
   savingsCompoundMonthly (Fin 1) (Fin (1 / 2 ^ 44)) (Fin 1024) = Fin 1 \<and>
   savingsSimple (Fin 1) (Fin (1 / 2 ^ 44)) (Fin 1024) =
     Fin (2251799813685357 / 2251799813685248) \<and>
   \<not> jge (savingsCompoundMonthly (Fin 1) (Fin (1 / 2 ^ 44)) (Fin 1024))
          (savingsSimple (Fin 1) (Fin (1 / 2 ^ 44)) (Fin 1024))"
proof -
  from savings_small_rate_values
  have vals: "savingsCompoundMonthly (Fin 1) (Fin (1 / 2 ^ 44)) (Fin 1024) = Fin 1"
    "savingsSimple (Fin 1) (Fin (1 / 2 ^ 44)) (Fin 1024) =
       Fin (2251799813685357 / 2251799813685248)"
    by blast+
  show ?thesis unfolding vals by (simp add: jgt_def jge_def)
qed

section \<open>The changes-only view\<close>

text \<open>
  The loop of \<^verbatim>\<open>getChangesOnly\<close> appends, to what it has collected, the elements from
  index \<open>i\<close> on that differ from their predecessor in the full series.
\<close>

lemma changesLoop_filter:
  "0 < i \<Longrightarrow> changesLoop series i changes =
     changes @ map (nth series) (filter (changed series) [i..<length series])"
proof (induction series i changes rule: changesLoop.induct)
  case (1 series i changes)
  show ?case
  proof (cases "i < length series")
    case True
    then have up: "[i..<length series] = i # [i + 1..<length series]"
      by (simp add: upt_conv_Cons)
    have step: "changesLoop series i changes =
        changesLoop series (i + 1)
          (if jneq (val (series ! i)) (val (series ! (i - 1))) then changes @ [series ! i]
           else changes)"
      using True by (subst changesLoop.simps) simp
    show ?thesis
      using "1.IH" [OF True] "1.prems" 
      by (simp only: step up) (simp add: changed_def del: changesLoop.simps)
  next
    case False
    then show ?thesis by (subst changesLoop.simps) simp
  qed
qed

lemma getChangesOnly_filter:
  "getChangesOnly series = map (nth series) (filter (changed series) [0..<length series])"
proof (cases "length series = 0")
  case True
  then show ?thesis by (simp add: getChangesOnly_def)
next
  case False
  then have pos: "0 < length series" by simp
  have up: "[0..<length series] = 0 # [Suc 0..<length series]"
    using upt_conv_Cons [OF pos] .
  have "getChangesOnly series = changesLoop series 1 [series ! 0]"
    using False by (simp add: getChangesOnly_def del: changesLoop.simps)
  also have "\<dots> = [series ! 0] @ map (nth series) (filter (changed series) [1..<length series])"
    by (rule changesLoop_filter) simp
  also have "\<dots> = map (nth series) (filter (changed series) [0..<length series])"
    by (subst up) (simp add: changed_def)
  finally show ?thesis .
qed

lemma changes_prefix_last:
  "k < length series \<Longrightarrow>
   filter (changed series) [0..<Suc k] \<noteq> [] \<and>
   val (series ! last (filter (changed series) [0..<Suc k])) = val (series ! k)"
proof (induction k)
  case 0
  then show ?case by (simp add: changed_def)
next
  case (Suc k)
  define F where "F = filter (changed series) [0..<Suc k]"
  have IH: "F \<noteq> []" "val (series ! last F) = val (series ! k)"
    using Suc by (simp_all add: F_def del: upt_Suc)
  have ext: "filter (changed series) [0..<Suc (Suc k)] =
             F @ (if changed series (Suc k) then [Suc k] else [])"
    by (simp add: F_def)
  show ?case
  proof (cases "changed series (Suc k)")
    case True
    then show ?thesis by (simp only: ext) simp
  next
    case False
    then have "val (series ! Suc k) = val (series ! k)"
      by (simp add: changed_def jneq_def jeq_def)
    with False IH show ?thesis by (simp only: ext) simp
  qed
qed

lemma getChangesOnly_last:
  assumes "series \<noteq> []"
  shows "getChangesOnly series \<noteq> [] \<and> val (last (getChangesOnly series)) = val (last series)"
proof -
  obtain k where k: "length series = Suc k" using assms by (cases series) auto
  then have "k < length series" by simp
  from changes_prefix_last [OF this]
  have ne: "filter (changed series) [0..<length series] \<noteq> []"
    and v: "val (series ! last (filter (changed series) [0..<length series])) = val (series ! k)"
    unfolding k by blast+
  have "last series = series ! k" using k assms by (simp add: last_conv_nth)
  with ne v show ?thesis
    by (simp add: getChangesOnly_filter last_map del: upt_Suc)
qed

lemma jneq_sym: "jneq a b = jneq b a"
  by (auto simp add: jneq_def jeq_def)

lemma changes_cycle:
  assumes len: "i + 2 < length series"
    and vals: "val (series ! i) = A" "val (series ! (i + 1)) = B" "val (series ! (i + 2)) = A"
    and ne: "jneq A B"
  shows "\<exists>front rest.
           getChangesOnly series = front @ [series ! (i + 1), series ! (i + 2)] @ rest \<and>
           front \<noteq> [] \<and> val (last front) = A \<and>
           (changed series i \<longrightarrow> last front = series ! i) \<and>
           (length series = i + 3 \<longrightarrow> rest = [])"
proof -
  define F where "F = filter (changed series) [0..<Suc i]"
  define front where "front = map (nth series) F"
  define rest where "rest = map (nth series) (filter (changed series) [i + 3..<length series])"
  have parts: "[0..<length series] = [0..<Suc i] @ [i + 1, i + 2] @ [i + 3..<length series]"
  proof -
    have "[0..<length series] = [0..<Suc i] @ [Suc i..<length series]"
    proof -
      have "Suc i \<le> length series" using len by simp
      then obtain m where m: "length series = Suc i + m" using le_Suc_ex by blast
      show ?thesis unfolding m by (rule upt_add_eq_append) simp
    qed
    moreover have "[Suc i..<length series] = (i + 1) # [i + 2..<length series]"
      using len by (simp add: upt_conv_Cons)
    moreover have "[i + 2..<length series] = (i + 2) # [i + 3..<length series]"
      using len by (simp add: upt_conv_Cons numeral_3_eq_3)
    ultimately show ?thesis by simp
  qed
  have c1: "changed series (i + 1)"
    using vals ne by (simp add: changed_def jneq_sym [of B A])
  have c2: "changed series (i + 2)"
    using vals ne by (simp add: changed_def)
  have out: "getChangesOnly series = front @ [series ! (i + 1), series ! (i + 2)] @ rest"
    unfolding getChangesOnly_filter front_def rest_def F_def
    using c1 c2 by (simp add: parts del: upt_Suc)
  have "i < length series" using len by simp
  from changes_prefix_last [OF this]
  have F_ne: "F \<noteq> []" and F_val: "val (series ! last F) = val (series ! i)"
    unfolding F_def by blast+
  have front_ne: "front \<noteq> []" using F_ne by (simp add: front_def)
  have front_last: "last front = series ! last F"
    using F_ne by (simp add: front_def last_map)
  have front_val: "val (last front) = A"
    using front_last F_val vals by simp
  have own: "changed series i \<longrightarrow> last front = series ! i"
  proof
    assume "changed series i"
    then have "last F = i" by (simp add: F_def)
    then show "last front = series ! i" using front_last by simp
  qed
  have exact: "length series = i + 3 \<longrightarrow> rest = []"
    by (simp add: rest_def)
  from out front_ne front_val own exact show ?thesis by blast
qed

text \<open>
  Claim C1, as far as it holds: \<^verbatim>\<open>getChangesOnly\<close> maps the empty series to the empty
  sequence; the first element of a non-empty series is the first element of the result; and
  the result is exactly the elements of the series, in order, that are element 0 or whose
  value is \<^verbatim>\<open>!==\<close> the value of the element just before them in the full series. A series
  of three points with values A, B, A is returned whole. Wherever three consecutive points
  of a series carry values A, B, A, the second and the third stand next to each other in the
  result, after a point of value A; that point is the first of the three when that one is
  element 0 or differs from its own predecessor, and an earlier point otherwise.
\<close>

theorem getChangesOnly_characterisation:
  "getChangesOnly [] = [] \<and>
   (series \<noteq> [] \<longrightarrow> getChangesOnly series ! 0 = series ! 0) \<and>
   getChangesOnly series = map (nth series) (filter (changed series) [0..<length series]) \<and>
   (val p = val r \<and> jneq (val p) (val q) \<longrightarrow> getChangesOnly [p, q, r] = [p, q, r]) \<and>
   (i + 2 < length series \<and> val (series ! i) = val (series ! (i + 2)) \<and>
    jneq (val (series ! i)) (val (series ! (i + 1))) \<longrightarrow>
      (\<exists>front rest.
         getChangesOnly series = front @ [series ! (i + 1), series ! (i + 2)] @ rest \<and>
         front \<noteq> [] \<and> val (last front) = val (series ! i) \<and>
         (changed series i \<longrightarrow> last front = series ! i)))"
proof -
  have a: "getChangesOnly [] = []" by (simp add: getChangesOnly_def)
  have b: "series \<noteq> [] \<longrightarrow> getChangesOnly series ! 0 = series ! 0"
  proof
    assume "series \<noteq> []"
    then have pos: "0 < length series" by simp
    have "[0..<length series] = 0 # [Suc 0..<length series]"
      using upt_conv_Cons [OF pos] .
    then show "getChangesOnly series ! 0 = series ! 0"
      by (simp add: getChangesOnly_filter changed_def)
  qed
  have c: "getChangesOnly series = map (nth series) (filter (changed series) [0..<length series])"
    by (rule getChangesOnly_filter)
  have d: "val p = val r \<and> jneq (val p) (val q) \<longrightarrow> getChangesOnly [p, q, r] = [p, q, r]"
    by (auto simp add: getChangesOnly_filter changed_def jneq_sym [of "val q" "val r"]
        upt_conv_Cons)
  have e: "i + 2 < length series \<and> val (series ! i) = val (series ! (i + 2)) \<and>
    jneq (val (series ! i)) (val (series ! (i + 1))) \<longrightarrow>
      (\<exists>front rest.
         getChangesOnly series = front @ [series ! (i + 1), series ! (i + 2)] @ rest \<and>
         front \<noteq> [] \<and> val (last front) = val (series ! i) \<and>
         (changed series i \<longrightarrow> last front = series ! i))"
  proof
    assume h: "i + 2 < length series \<and> val (series ! i) = val (series ! (i + 2)) \<and>
      jneq (val (series ! i)) (val (series ! (i + 1)))"
    then have len: "i + 2 < length series"
      and v2: "val (series ! i) = val (series ! (i + 2))"
      and ne: "jneq (val (series ! i)) (val (series ! (i + 1)))" by blast+
    from changes_cycle [OF len refl refl v2 [symmetric] ne]
    obtain front rest where
      "getChangesOnly series = front @ [series ! (i + 1), series ! (i + 2)] @ rest"
      "front \<noteq> []" "val (last front) = val (series ! i)"
      "changed series i \<longrightarrow> last front = series ! i"
      by blast
    then show "\<exists>front rest.
         getChangesOnly series = front @ [series ! (i + 1), series ! (i + 2)] @ rest \<and>
         front \<noteq> [] \<and> val (last front) = val (series ! i) \<and>
         (changed series i \<longrightarrow> last front = series ! i)"
      by blast
  qed
  from a b c d e show ?thesis by blast
qed

theorem getChangesOnly_characterisation_witness:
  "getChangesOnly
     [\<lparr>date = ''2024-01-01'', val = Fin 5\<rparr>, \<lparr>date = ''2024-02-01'', val = Fin 4\<rparr>,
      \<lparr>date = ''2024-03-01'', val = Fin 5\<rparr>] =
     [\<lparr>date = ''2024-01-01'', val = Fin 5\<rparr>, \<lparr>date = ''2024-02-01'', val = Fin 4\<rparr>,
      \<lparr>date = ''2024-03-01'', val = Fin 5\<rparr>] \<and>
   getChangesOnly
     [\<lparr>date = ''2024-01-01'', val = Fin 5\<rparr>, \<lparr>date = ''2024-02-01'', val = Fin 5\<rparr>,
      \<lparr>date = ''2024-03-01'', val = Fin 4\<rparr>, \<lparr>date = ''2024-04-01'', val = Fin 5\<rparr>] =
     [\<lparr>date = ''2024-01-01'', val = Fin 5\<rparr>, \<lparr>date = ''2024-03-01'', val = Fin 4\<rparr>,
      \<lparr>date = ''2024-04-01'', val = Fin 5\<rparr>]"
  using getChangesOnly_characterisation
    [where p = "\<lparr>date = ''2024-01-01'', val = Fin 5\<rparr>"
       and q = "\<lparr>date = ''2024-02-01'', val = Fin 4\<rparr>"
       and r = "\<lparr>date = ''2024-03-01'', val = Fin 5\<rparr>"
       and i = 1
       and series = "[\<lparr>date = ''2024-01-01'', val = Fin 5\<rparr>, \<lparr>date = ''2024-02-01'', val = Fin 5\<rparr>,
                      \<lparr>date = ''2024-03-01'', val = Fin 4\<rparr>, \<lparr>date = ''2024-04-01'', val = Fin 5\<rparr>]"]
  by (simp add: jneq_def jeq_def changed_def)

text \<open>
  A series with values 5, 5, 4, 5. Its points 1, 2 and 3 are three consecutive points with
  values A, B, A, and point 1, whose value is that of point 0, is not in the result.
\<close>

theorem getChangesOnly_cycle_counterexample:
  "getChangesOnly
     [\<lparr>date = ''2024-01-01'', val = Fin 5\<rparr>, \<lparr>date = ''2024-02-01'', val = Fin 5\<rparr>,
      \<lparr>date = ''2024-03-01'', val = Fin 4\<rparr>, \<lparr>date = ''2024-04-01'', val = Fin 5\<rparr>] =
     [\<lparr>date = ''2024-01-01'', val = Fin 5\<rparr>, \<lparr>date = ''2024-03-01'', val = Fin 4\<rparr>,
      \<lparr>date = ''2024-04-01'', val = Fin 5\<rparr>] \<and>
   \<lparr>date = ''2024-02-01'', val = Fin 5\<rparr> \<notin> set (getChangesOnly
     [\<lparr>date = ''2024-01-01'', val = Fin 5\<rparr>, \<lparr>date = ''2024-02-01'', val = Fin 5\<rparr>,
      \<lparr>date = ''2024-03-01'', val = Fin 4\<rparr>, \<lparr>date = ''2024-04-01'', val = Fin 5\<rparr>])"
proof -
  have "getChangesOnly
     [\<lparr>date = ''2024-01-01'', val = Fin 5\<rparr>, \<lparr>date = ''2024-02-01'', val = Fin 5\<rparr>,
      \<lparr>date = ''2024-03-01'', val = Fin 4\<rparr>, \<lparr>date = ''2024-04-01'', val = Fin 5\<rparr>] =
     [\<lparr>date = ''2024-01-01'', val = Fin 5\<rparr>, \<lparr>date = ''2024-03-01'', val = Fin 4\<rparr>,
      \<lparr>date = ''2024-04-01'', val = Fin 5\<rparr>]"
    by (simp add: getChangesOnly_def jneq_def jeq_def)
  then show ?thesis by simp
qed

section \<open>The latest pointer\<close>

text \<open>
  Claim C10: for a non-empty series without NaN values, \<open>latest\<close> is a point of the series
  whose value equals, under \<^verbatim>\<open>===\<close>, the value of the last point of the series. Its date
  is the date of the last change, which may be earlier than the last observation.
\<close>

theorem latest_value_is_current:
  "series \<noteq> [] \<and> (\<forall>p \<in> set series. \<not> isNaN (val p)) \<longrightarrow>
     (\<exists>p. latest (getChangesOnly series) = Some p \<and> p \<in> set series \<and>
          jeq (val p) (val (last series)))"
proof
  assume h: "series \<noteq> [] \<and> (\<forall>p \<in> set series. \<not> isNaN (val p))"
  then have ne: "series \<noteq> []" by simp
  from getChangesOnly_last [OF ne]
  have c_ne: "getChangesOnly series \<noteq> []"
    and c_val: "val (last (getChangesOnly series)) = val (last series)" by blast+
  have lat: "latest (getChangesOnly series) = Some (last (getChangesOnly series))"
    using c_ne by (simp add: latest_def last_conv_nth)
  have "set (getChangesOnly series) \<subseteq> set series"
    by (auto simp add: getChangesOnly_filter)
  then have mem: "last (getChangesOnly series) \<in> set series"
    using c_ne last_in_set by blast
  have "\<not> isNaN (val (last series))" using h ne by simp
  then have "jeq (val (last (getChangesOnly series))) (val (last series))"
    using c_val by (simp add: jeq_def isNaN_def)
  with lat mem show "\<exists>p. latest (getChangesOnly series) = Some p \<and> p \<in> set series \<and>
          jeq (val p) (val (last series))" by blast
qed

theorem latest_value_is_current_witness:
  "(\<exists>p. latest (getChangesOnly
        [\<lparr>date = ''2024-01-01'', val = Fin 5\<rparr>, \<lparr>date = ''2024-02-01'', val = Fin 4\<rparr>,
         \<lparr>date = ''2024-03-01'', val = Fin 4\<rparr>]) = Some p \<and>
      p \<in> set [\<lparr>date = ''2024-01-01'', val = Fin 5\<rparr>, \<lparr>date = ''2024-02-01'', val = Fin 4\<rparr>,
         \<lparr>date = ''2024-03-01'', val = Fin 4\<rparr>] \<and>
      jeq (val p) (Fin 4)) \<and>
   latest (getChangesOnly
        [\<lparr>date = ''2024-01-01'', val = Fin 5\<rparr>, \<lparr>date = ''2024-02-01'', val = Fin 4\<rparr>,
         \<lparr>date = ''2024-03-01'', val = Fin 4\<rparr>]) = Some \<lparr>date = ''2024-02-01'', val = Fin 4\<rparr>"
proof -
  have ev: "getChangesOnly
        [\<lparr>date = ''2024-01-01'', val = Fin 5\<rparr>, \<lparr>date = ''2024-02-01'', val = Fin 4\<rparr>,
         \<lparr>date = ''2024-03-01'', val = Fin 4\<rparr>] =
        [\<lparr>date = ''2024-01-01'', val = Fin 5\<rparr>, \<lparr>date = ''2024-02-01'', val = Fin 4\<rparr>]"
    by (simp add: getChangesOnly_filter changed_def jneq_def jeq_def upt_conv_Cons)
  show ?thesis
    using latest_value_is_current
      [of "[\<lparr>date = ''2024-01-01'', val = Fin 5\<rparr>, \<lparr>date = ''2024-02-01'', val = Fin 4\<rparr>,
            \<lparr>date = ''2024-03-01'', val = Fin 4\<rparr>]"]
    by (simp add: isNaN_def ev latest_def)
qed

section \<open>Reading a field of a node\<close>

lemma get_prop_scalar:
  "\<not> (truthy node \<and> is_object node) \<Longrightarrow> get_prop node key = JUndefined"
  by (cases node) (simp_all add: get_prop_def)

text \<open>
  Claim C9: when the attribute form \<^verbatim>\<open>@_\<close> + key and the child form of a field are both
  present on a node, \<^verbatim>\<open>extractValue\<close> returns the attribute's value as a string; the
  attribute wins whenever it is present, and the child is read only when it is not. The
  result is \<open>None\<close> when neither is present, and when the node is not an object or array.
\<close>

theorem extractValue_prefers_attribute:
  "(present (get_prop node (''@_'' @ key)) \<and> present (get_prop node key) \<longrightarrow>
      extractValue env node key = Some (js_String env (get_prop node (''@_'' @ key)))) \<and>
   (present (get_prop node (''@_'' @ key)) \<longrightarrow>
      extractValue env node key = Some (js_String env (get_prop node (''@_'' @ key)))) \<and>
   (\<not> present (get_prop node (''@_'' @ key)) \<and> present (get_prop node key) \<longrightarrow>
      extractValue env node key = Some (js_String env (get_prop node key))) \<and>
   (\<not> present (get_prop node (''@_'' @ key)) \<and> \<not> present (get_prop node key) \<longrightarrow>
      extractValue env node key = None) \<and>
   (\<not> (truthy node \<and> is_object node) \<longrightarrow> extractValue env node key = None)"
proof -
  have obj: "present (get_prop node k) \<Longrightarrow> truthy node \<and> is_object node" for k
    using get_prop_scalar [of node k] by (auto simp add: present_def)
  show ?thesis
    using obj [of "''@_'' @ key"] obj [of key]
    by (auto simp add: extractValue_def present_def Let_def)
qed

theorem extractValue_prefers_attribute_witness:
  "\<forall>env. extractValue env
      (JObj [(''TIME'', JStr ''2024-02-01''), (''@_TIME'', JStr ''2024-01-01'')]) ''TIME'' =
      Some ''2024-01-01'' \<and>
    extractValue env (JObj [(''TIME'', JStr ''2024-02-01'')]) ''TIME'' = Some ''2024-02-01'' \<and>
    extractValue env (JObj [(''OBS_VALUE'', JNum (Fin 5))]) ''TIME'' = None \<and>
    extractValue env (JStr ''2024-01-01'') ''TIME'' = None"
proof
  fix env
  show "extractValue env
      (JObj [(''TIME'', JStr ''2024-02-01''), (''@_TIME'', JStr ''2024-01-01'')]) ''TIME'' =
      Some ''2024-01-01'' \<and>
    extractValue env (JObj [(''TIME'', JStr ''2024-02-01'')]) ''TIME'' = Some ''2024-02-01'' \<and>
    extractValue env (JObj [(''OBS_VALUE'', JNum (Fin 5))]) ''TIME'' = None \<and>
    extractValue env (JStr ''2024-01-01'') ''TIME'' = None"
    using extractValue_prefers_attribute
        [of "JObj [(''TIME'', JStr ''2024-02-01''), (''@_TIME'', JStr ''2024-01-01'')]" "''TIME''" env]
      extractValue_prefers_attribute [of "JObj [(''TIME'', JStr ''2024-02-01'')]" "''TIME''" env]
      extractValue_prefers_attribute [of "JObj [(''OBS_VALUE'', JNum (Fin 5))]" "''TIME''" env]
      extractValue_prefers_attribute [of "JStr ''2024-01-01''" "''TIME''" env]
    by (simp add: get_prop_def present_def)
qed

section \<open>The parsed series\<close>











text \<open>
  On strings without upper-case letters, dates of the form \<^verbatim>\<open>YYYY-MM-DD\<close> among them,
  \<open>caseFoldCompare\<close> is the comparison by code units, whose sign is the lexicographic order.
\<close>

lemma lower_case_other:
  "c \<notin> set ''ABCDEFGHIJKLMNOPQRSTUVWXYZ'' \<Longrightarrow> lower_case c = c"
proof -
  assume "c \<notin> set ''ABCDEFGHIJKLMNOPQRSTUVWXYZ''"
  then have "map_of (zip ''ABCDEFGHIJKLMNOPQRSTUVWXYZ'' ''abcdefghijklmnopqrstuvwxyz'') c = None"
    by (intro map_of_zip_is_None [THEN iffD2]) simp_all
  then show ?thesis by (simp only: lower_case_def option.case)
qed

lemma caseFoldCompare_no_upper:
  assumes "set a \<inter> set ''ABCDEFGHIJKLMNOPQRSTUVWXYZ'' = {}"
    and "set b \<inter> set ''ABCDEFGHIJKLMNOPQRSTUVWXYZ'' = {}"
  shows "caseFoldCompare a b = codeUnitCompare a b"
proof -
  have "map lower_case a = a"
    by (rule map_idI, rule lower_case_other) (use assms(1) in blast)
  moreover have "map lower_case b = b"
    by (rule map_idI, rule lower_case_other) (use assms(2) in blast)
  ultimately show ?thesis
    by (auto simp add: caseFoldCompare_def codeUnitCompare_def Let_def)
qed

lemma codeUnitCompare_le: "(codeUnitCompare a b \<le> 0) = (a \<le> b)"
  by (auto simp add: codeUnitCompare_def)






section \<open>The bounded search for cubes\<close>

text \<open>
  The loop over the keys appends what each nested search returns; an empty result appends
  nothing either way.
\<close>

declare findCubesRecursive.simps [simp del]

lemma nested_fold:
  assumes body: "\<And>cubes key. body cubes key =
      (if P key then (if 0 < length (G key) then cubes @ G key else cubes) else cubes)"
  shows "foldl body acc keys = acc @ concat (map (\<lambda>key. if P key then G key else []) keys)"
proof (induction keys arbitrary: acc)
  case Nil
  show ?case by simp
next
  case (Cons k ks)
  have "body acc k = acc @ (if P k then G k else [])"
    by (simp add: body)
  then show ?case by (simp add: Cons.IH)
qed

lemma findCubesRecursive_unfold:
  assumes "depth \<le> 5"
  shows "findCubesRecursive obj depth =
     own_cubes obj @
     concat (map (\<lambda>key. if truthy (get_prop obj key) \<and> is_object (get_prop obj key) \<and>
                             \<not> isArray (get_prop obj key)
                          then findCubesRecursive (get_prop obj key) (depth + 1) else [])
                 (own_keys obj))"
proof -
  have deep: "\<not> 5 < depth" using assms by simp
  have nf: "foldl
      (\<lambda>cubes key.
          if truthy (get_prop obj key) \<and> is_object (get_prop obj key) \<and> \<not> isArray (get_prop obj key)
          then if 0 < length (findCubesRecursive (get_prop obj key) (depth + 1))
               then cubes @ findCubesRecursive (get_prop obj key) (depth + 1) else cubes
          else cubes)
      acc keys =
    acc @ concat (map (\<lambda>key. if truthy (get_prop obj key) \<and> is_object (get_prop obj key) \<and>
                             \<not> isArray (get_prop obj key)
                          then findCubesRecursive (get_prop obj key) (depth + 1) else []) keys)"
    for acc keys
    by (rule nested_fold
        [where P = "\<lambda>key. truthy (get_prop obj key) \<and> is_object (get_prop obj key) \<and>
                           \<not> isArray (get_prop obj key)"
           and G = "\<lambda>key. findCubesRecursive (get_prop obj key) (depth + 1)"])
      (rule refl)
  show ?thesis
    apply (subst findCubesRecursive.simps)
    unfolding Let_def if_not_P [OF deep] nf own_cubes_def
    by simp
qed

lemma findCubesRecursive_too_deep: "5 < depth \<Longrightarrow> findCubesRecursive obj depth = []"
  by (subst findCubesRecursive.simps) simp

inductive_cases reachable_zeroE: "reachable obj 0 target"
inductive_cases reachable_SucE: "reachable obj (Suc d) target"

lemma findCubesRecursive_members:
  "6 - depth = k \<Longrightarrow>
   (x \<in> set (findCubesRecursive obj depth)) =
   (\<exists>d target. reachable obj d target \<and> depth + d \<le> 5 \<and> x \<in> set (own_cubes target))"
proof (induction k arbitrary: obj depth)
  case 0
  then have "5 < depth" by simp
  then show ?case by (simp add: findCubesRecursive_too_deep)
next
  case (Suc k)
  then have le: "depth \<le> 5" and k: "6 - (depth + 1) = k" by simp_all
  note IH = Suc.IH [OF k]
  show ?case
  proof
    assume "x \<in> set (findCubesRecursive obj depth)"
    then consider (own) "x \<in> set (own_cubes obj)"
      | (nested) key where "key \<in> set (own_keys obj)"
          "truthy (get_prop obj key)" "is_object (get_prop obj key)" "\<not> isArray (get_prop obj key)"
          "x \<in> set (findCubesRecursive (get_prop obj key) (depth + 1))"
      unfolding findCubesRecursive_unfold [OF le] by (auto split: if_splits)
    then show "\<exists>d target. reachable obj d target \<and> depth + d \<le> 5 \<and> x \<in> set (own_cubes target)"
    proof cases
      case own
      with le reach_self show ?thesis by (intro exI [of _ 0] exI [of _ obj]) simp
    next
      case nested
      from nested(5) IH obtain d target where
        r: "reachable (get_prop obj key) d target" "depth + 1 + d \<le> 5" "x \<in> set (own_cubes target)"
        by blast
      have "reachable obj (Suc d) target"
        using reach_step [OF nested(1) refl nested(2,3,4) r(1)] .
      with r show ?thesis by (intro exI [of _ "Suc d"] exI [of _ target]) simp
    qed
  next
    assume "\<exists>d target. reachable obj d target \<and> depth + d \<le> 5 \<and> x \<in> set (own_cubes target)"
    then obtain d target where
      r: "reachable obj d target" "depth + d \<le> 5" "x \<in> set (own_cubes target)" by blast
    show "x \<in> set (findCubesRecursive obj depth)"
    proof (cases d)
      case 0
      with r(1) have "target = obj" by (auto elim: reachable_zeroE)
      with r(3) show ?thesis unfolding findCubesRecursive_unfold [OF le] by simp
    next
      case (Suc d')
      with r(1) obtain key where
        s: "key \<in> set (own_keys obj)" "truthy (get_prop obj key)" "is_object (get_prop obj key)"
          "\<not> isArray (get_prop obj key)" "reachable (get_prop obj key) d' target"
        by (auto elim: reachable_SucE)
      have "depth + 1 + d' \<le> 5" using r(2) Suc by simp
      with s(5) r(3) IH have "x \<in> set (findCubesRecursive (get_prop obj key) (depth + 1))"
        by blast
      with s show ?thesis unfolding findCubesRecursive_unfold [OF le] by auto
    qed
  qed
qed

text \<open>
  Claim C6, as the search is written: the result holds exactly the nodes stored under a
  truthy \<^verbatim>\<open>Cube\<close> or \<^verbatim>\<open>cube\<close> key of the document and of the objects visited at most
  five levels below it, where only property values that are objects and not arrays are
  visited. The order is depth first: the cubes of an object itself, \<^verbatim>\<open>Cube\<close> before
  \<^verbatim>\<open>cube\<close>, then the results of its object-valued properties in key order. Beyond depth
  5 nothing is collected.
\<close>

theorem findCubesRecursive_collects:
  "(x \<in> set (findCubesRecursive doc 0)) =
     (\<exists>d target. reachable doc d target \<and> d \<le> 5 \<and> x \<in> set (own_cubes target)) \<and>
   (depth \<le> 5 \<longrightarrow>
      findCubesRecursive obj depth =
        own_cubes obj @
        concat (map (\<lambda>key. if truthy (get_prop obj key) \<and> is_object (get_prop obj key) \<and>
                                \<not> isArray (get_prop obj key)
                             then findCubesRecursive (get_prop obj key) (depth + 1) else [])
                    (own_keys obj))) \<and>
   (5 < depth \<longrightarrow> findCubesRecursive obj depth = [])"
proof -
  have a: "(x \<in> set (findCubesRecursive doc 0)) =
     (\<exists>d target. reachable doc d target \<and> d \<le> 5 \<and> x \<in> set (own_cubes target))"
    using findCubesRecursive_members [of 0 6 x doc] by simp
  show ?thesis
    using a findCubesRecursive_unfold [of depth obj] findCubesRecursive_too_deep [of depth obj]
    by blast
qed

theorem findCubesRecursive_collects_witness:
  "findCubesRecursive
     (JObj [(''Envelope'', JObj [(''Cube'', JObj [(''@_TIME'', JStr ''2024-01-01'')])]),
            (''cube'', JArr [JStr ''p'', JStr ''q''])]) 0 =
     [JStr ''p'', JStr ''q'', JObj [(''@_TIME'', JStr ''2024-01-01'')]] \<and>
   findCubesRecursive (JObj [(''Cube'', JStr ''p'')]) 6 = []"
proof -
  define doc where "doc =
     JObj [(''Envelope'', JObj [(''Cube'', JObj [(''@_TIME'', JStr ''2024-01-01'')])]),
           (''cube'', JArr [JStr ''p'', JStr ''q''])]"
  have leaf: "findCubesRecursive (JObj [(''@_TIME'', JStr ''2024-01-01'')]) 2 = []"
    by (simp add: findCubesRecursive_unfold own_cubes_def get_prop_def first_occurrences_def)
  have env: "findCubesRecursive (JObj [(''Cube'', JObj [(''@_TIME'', JStr ''2024-01-01'')])]) 1 =
             [JObj [(''@_TIME'', JStr ''2024-01-01'')]]"
    using leaf
    by (simp add: findCubesRecursive_unfold own_cubes_def get_prop_def first_occurrences_def
        pushed_def)
  from findCubesRecursive_collects [of _ doc 0 doc]
  have "findCubesRecursive doc 0 =
        own_cubes doc @
        concat (map (\<lambda>key. if truthy (get_prop doc key) \<and> is_object (get_prop doc key) \<and>
                                \<not> isArray (get_prop doc key)
                             then findCubesRecursive (get_prop doc key) (0 + 1) else [])
                    (own_keys doc))"
    by blast
  then have r: "findCubesRecursive doc 0 =
      [JStr ''p'', JStr ''q'', JObj [(''@_TIME'', JStr ''2024-01-01'')]]"
    using env by (simp add: doc_def own_cubes_def get_prop_def first_occurrences_def pushed_def)
  from findCubesRecursive_collects [of _ doc 6 "JObj [(''Cube'', JStr ''p'')]"]
  have d: "findCubesRecursive (JObj [(''Cube'', JStr ''p'')]) 6 = []" by simp
  from r d show ?thesis unfolding doc_def by blast
qed

text \<open>
  An array is not searched: a node stored under \<^verbatim>\<open>Cube\<close> in an object that is an element
  of an array, two levels below the document, is not collected.
\<close>

theorem findCubesRecursive_array_counterexample:
  "get_prop
     (elems (get_prop
        (JObj [(''Series'', JArr [JObj [(''Cube'', JObj [(''@_TIME'', JStr ''2024-01-01'')])]])])
        ''Series'') ! 0) ''Cube'' = JObj [(''@_TIME'', JStr ''2024-01-01'')] \<and>
   JObj [(''@_TIME'', JStr ''2024-01-01'')] \<notin> set (findCubesRecursive
     (JObj [(''Series'', JArr [JObj [(''Cube'', JObj [(''@_TIME'', JStr ''2024-01-01'')])]])]) 0)"
  by (simp add: findCubesRecursive_unfold own_cubes_def get_prop_def first_occurrences_def)

end
